theory Spec2Isabelle
  imports Main "HOL-Library.Char_ord" "HOL-Library.List_Lexorder"
begin

section \<open>Python strings\<close>

text \<open>
  The module \<^verbatim>\<open>hashdist/spec/conda_version_matching.py\<close> works on Python text strings.
  A string is modelled as a \<^typ>\<open>string\<close> (a list of 8-bit characters), which is exact for
  ASCII text; every character the version grammar accepts is ASCII. White space is what
  Python 3 text strings take for it, in \<^verbatim>\<open>strip\<close>, \<^verbatim>\<open>split\<close> and the regex class \<^verbatim>\<open>\s\<close> alike.
  Exceptions are values of the type \<open>py_error\<close>, and a function that can raise returns
  \<open>py_error + 'a\<close>; an \<^verbatim>\<open>assert\<close> is taken as enabled.
\<close>

datatype py_error =
    ValueError string
  | AssertionError string
  | IndexError
  | KeyError
  | AttributeError
  | ReError

definition is_space :: "char \<Rightarrow> bool" where
  \<comment> \<open>the ASCII characters \<^verbatim>\<open>str.isspace\<close> accepts: TAB, LF, VT, FF, CR, FS, GS, RS, US, SPACE\<close>
  "is_space c = (of_char c \<in> {9, 10, 11, 12, 13, 28, 29, 30, 31, 32 :: nat})"

definition is_digit :: "char \<Rightarrow> bool" where
  "is_digit c = (c \<in> set ''0123456789'')"

definition lower_char :: "char \<Rightarrow> char" where
  "lower_char c =
     (case map_of (zip ''ABCDEFGHIJKLMNOPQRSTUVWXYZ'' ''abcdefghijklmnopqrstuvwxyz'') c of
        Some d \<Rightarrow> d
      | None \<Rightarrow> c)"

definition lower :: "string \<Rightarrow> string" where
  \<comment> \<open>\<^verbatim>\<open>str.lower()\<close>\<close>
  "lower s = map lower_char s"

definition lstrip :: "string \<Rightarrow> string" where
  "lstrip s = dropWhile is_space s"

definition rstrip :: "string \<Rightarrow> string" where
  \<comment> \<open>\<^verbatim>\<open>str.rstrip()\<close>\<close>
  "rstrip s = rev (dropWhile is_space (rev s))"

definition strip :: "string \<Rightarrow> string" where
  \<comment> \<open>\<^verbatim>\<open>str.strip()\<close>\<close>
  "strip s = rstrip (lstrip s)"

definition rstrip_char :: "char \<Rightarrow> string \<Rightarrow> string" where
  \<comment> \<open>\<^verbatim>\<open>s.rstrip(c)\<close> for a one-character argument\<close>
  "rstrip_char c s = rev (dropWhile (\<lambda>d. d = c) (rev s))"

definition replace_char :: "char \<Rightarrow> string \<Rightarrow> string \<Rightarrow> string" where
  \<comment> \<open>\<^verbatim>\<open>s.replace(c, r)\<close> for a one-character \<open>c\<close>\<close>
  "replace_char c r s = concat (map (\<lambda>d. if d = c then r else [d]) s)"

primrec split_on :: "char \<Rightarrow> string \<Rightarrow> string list" where
  \<comment> \<open>\<^verbatim>\<open>s.split(sep)\<close> for a one-character separator: always at least one piece\<close>
  "split_on sep [] = [[]]"
| "split_on sep (c # cs) =
     (let r = split_on sep cs in if c = sep then [] # r else (c # hd r) # tl r)"

primrec join :: "string \<Rightarrow> string list \<Rightarrow> string" where
  \<comment> \<open>\<^verbatim>\<open>sep.join(xs)\<close>\<close>
  "join sep [] = []"
| "join sep (x # xs) = (if xs = [] then x else x @ sep @ join sep xs)"

definition startswith :: "string \<Rightarrow> string \<Rightarrow> bool" where
  \<comment> \<open>\<^verbatim>\<open>s.startswith(p)\<close>\<close>
  "startswith s p = (take (length p) s = p)"

definition endswith :: "string \<Rightarrow> string \<Rightarrow> bool" where
  \<comment> \<open>\<^verbatim>\<open>s.endswith(p)\<close>\<close>
  "endswith s p = (length p \<le> length s \<and> drop (length s - length p) s = p)"

definition isdigit :: "string \<Rightarrow> bool" where
  \<comment> \<open>\<^verbatim>\<open>s.isdigit()\<close>: false on the empty string\<close>
  "isdigit s = (s \<noteq> [] \<and> list_all is_digit s)"

definition digit_val :: "char \<Rightarrow> nat" where
  "digit_val c = of_char c - 48"

definition int_of_str :: "string \<Rightarrow> nat" where
  \<comment> \<open>\<^verbatim>\<open>int(s)\<close> on a string of decimal digits; Python integers are unbounded\<close>
  "int_of_str s = foldl (\<lambda>n c. 10 * n + digit_val c) 0 s"

definition dollar :: "string \<Rightarrow> bool" where
  \<comment> \<open>where the regex anchor \<^verbatim>\<open>$\<close> matches: at the end, or before a final newline\<close>
  "dollar rest = (rest = [] \<or> rest = [CHR 0x0A])"

fun zip_longest :: "'a \<Rightarrow> 'a list \<Rightarrow> 'a list \<Rightarrow> ('a \<times> 'a) list" where
  \<comment> \<open>\<^verbatim>\<open>zip_longest(xs, ys, fillvalue=fill)\<close>\<close>
  "zip_longest fill [] [] = []"
| "zip_longest fill (x # xs) [] = (x, fill) # zip_longest fill xs []"
| "zip_longest fill [] (y # ys) = (fill, y) # zip_longest fill [] ys"
| "zip_longest fill (x # xs) (y # ys) = (x, y) # zip_longest fill xs ys"

section \<open>VersionOrder\<close>

text \<open>
  A parsed subcomponent is an integer, \<^verbatim>\<open>float('inf')\<close> (for \<^verbatim>\<open>post\<close>) or a string
  (\<^verbatim>\<open>'DEV'\<close> for \<^verbatim>\<open>dev\<close>). The object has the attributes \<^verbatim>\<open>fillvalue\<close>,
  \<^verbatim>\<open>norm_version\<close>, \<^verbatim>\<open>version\<close> and \<^verbatim>\<open>local\<close>.
\<close>

datatype token = TInt nat | TInf | TStr string

record VersionOrder =
  fillvalue :: token
  norm_version :: string
  version :: "token list list"
  local_part :: "token list list"

definition version_char :: "char \<Rightarrow> bool" where
  \<comment> \<open>the class \<^verbatim>\<open>[\*\.\+!_0-9a-z]\<close>\<close>
  "version_char c = (c \<in> set ''*.+!_0123456789abcdefghijklmnopqrstuvwxyz'')"

definition version_check_re :: "string \<Rightarrow> bool" where
  \<comment> \<open>\<^verbatim>\<open>_version_check_re.match(s)\<close> for \<^verbatim>\<open>^[\*\.\+!_0-9a-z]+$\<close>: the class excludes the
     newline, so the run of class characters is the whole string, or all but a final newline\<close>
  "version_check_re s =
     (let body = (if s \<noteq> [] \<and> dollar [last s] then butlast s else s) in
      body \<noteq> [] \<and> list_all version_char body)"

datatype cclass = Digits | Stars | Others

definition cclass_of :: "char \<Rightarrow> cclass" where
  "cclass_of c = (if is_digit c then Digits else if c = CHR ''*'' then Stars else Others)"

function version_split_re_findall :: "string \<Rightarrow> string list" where
  \<comment> \<open>\<^verbatim>\<open>_version_split_re.findall(s)\<close> for \<^verbatim>\<open>([0-9]+|[*]+|[^0-9*]+)\<close>: the maximal runs\<close>
  "version_split_re_findall [] = []"
| "version_split_re_findall (c # cs) =
     (c # takeWhile (\<lambda>d. cclass_of d = cclass_of c) cs)
       # version_split_re_findall (dropWhile (\<lambda>d. cclass_of d = cclass_of c) cs)"
  by pat_completeness auto
termination
  by (relation "measure length") (auto simp: length_dropWhile_le less_Suc_eq_le)

definition convert_run :: "string \<Rightarrow> token" where
  \<comment> \<open>lines 217-225: numerals to int, \<^verbatim>\<open>post\<close> to infinity, \<^verbatim>\<open>dev\<close> to \<^verbatim>\<open>'DEV'\<close>\<close>
  "convert_run r =
     (if isdigit r then TInt (int_of_str r)
      else if r = ''post'' then TInf
      else if r = ''dev'' then TStr ''DEV''
      else TStr r)"

definition parse_component :: "token \<Rightarrow> string \<Rightarrow> py_error + token list" where
  \<comment> \<open>the body of the loop over \<open>k\<close>, lines 213-231\<close>
  "parse_component fill vk =
     (let c = version_split_re_findall vk in
      if c = [] then Inl (ValueError ''empty version component.'')
      else let c = map convert_run c in
        if is_digit (hd vk) then Inr c else Inr (fill # c))"

fun parse_components :: "token \<Rightarrow> string list \<Rightarrow> py_error + token list list" where
  \<comment> \<open>the loop over \<open>k\<close>: the first empty component raises\<close>
  "parse_components fill [] = Inr []"
| "parse_components fill (vk # v) =
     (case parse_component fill vk of
        Inl e \<Rightarrow> Inl e
      | Inr c \<Rightarrow> (case parse_components fill v of Inl e \<Rightarrow> Inl e | Inr cs \<Rightarrow> Inr (c # cs)))"

definition find_epoch :: "string list \<Rightarrow> py_error + string list" where
  \<comment> \<open>lines 184-193, on \<^verbatim>\<open>version.split('!')\<close>\<close>
  "find_epoch pieces =
     (if length pieces = 1 then Inr [''0'']
      else if length pieces = 2 then
        (if \<not> isdigit (pieces ! 0) then Inl (ValueError ''epoch must be an integer.'')
         else Inr [pieces ! 0])
      else Inl (ValueError ''duplicated epoch separator.''))"

definition find_local :: "string list \<Rightarrow> py_error + string list" where
  \<comment> \<open>lines 197-204, on \<^verbatim>\<open>version[-1].split('+')\<close>\<close>
  "find_local pieces =
     (if length pieces = 1 then Inr []
      else if length pieces = 2 then
        Inr (split_on (CHR ''.'') (replace_char (CHR ''_'') ''.'' (pieces ! 1)))
      else Inl (ValueError ''duplicated local version separator.''))"

definition VersionOrder_split :: "string \<Rightarrow> py_error + VersionOrder" where
  \<comment> \<open>\<^verbatim>\<open>_VersionOrder.__new__\<close> from line 180 on: \<open>norm\<close> is the checked, normalised string\<close>
  "VersionOrder_split norm =
     (let fill = TInt 0;
          version = split_on (CHR ''!'') norm
      in case find_epoch version of
           Inl e \<Rightarrow> Inl e
         | Inr epoch \<Rightarrow>
            (let version = split_on (CHR ''+'') (last version)
             in case find_local version of
                  Inl e \<Rightarrow> Inl e
                | Inr loc \<Rightarrow>
                   (let ver = epoch
                          @ split_on (CHR ''.'') (replace_char (CHR ''_'') ''.'' (version ! 0))
                    in case parse_components fill ver of
                         Inl e \<Rightarrow> Inl e
                       | Inr ver' \<Rightarrow>
                          (case parse_components fill loc of
                             Inl e \<Rightarrow> Inl e
                           | Inr loc' \<Rightarrow>
                               Inr \<lparr>fillvalue = fill, norm_version = norm,
                                    version = ver', local_part = loc'\<rparr>))))"

definition VersionOrder_new :: "string \<Rightarrow> py_error + VersionOrder" where
  \<comment> \<open>\<^verbatim>\<open>_VersionOrder.__new__\<close> on a string\<close>
  "VersionOrder_new raw =
     (let version = lower (rstrip (strip raw)) in
      if version = [] then Inl (ValueError ''Empty version string.'')
      else
        let invalid = \<not> version_check_re version;
            dash = (invalid \<and> CHR ''-'' \<in> set version \<and> CHR ''_'' \<notin> set version);
            version = (if dash then replace_char (CHR ''-'') ''_'' version else version);
            invalid = (if dash then \<not> version_check_re version else invalid)
        in if invalid then Inl (ValueError ''invalid character(s).'')
           else VersionOrder_split version)"

definition VersionOrder_str :: "VersionOrder \<Rightarrow> string" where
  \<comment> \<open>\<^verbatim>\<open>__str__\<close>\<close>
  "VersionOrder_str self = norm_version self"

subsection \<open>The cache\<close>

text \<open>
  \<^verbatim>\<open>_VersionOrder(version)\<close> looks the raw string up in the dictionary \<^verbatim>\<open>_version_cache\<close>, and
  on a miss stores the new object there before it parses the string (line 160): after a
  failed parse the dictionary keeps an object that has \<^verbatim>\<open>fillvalue\<close> only. \<open>VersionOrder_new\<close>
  above is the constructor from line 162 on; \<open>VersionOrder_cached\<close> is the whole of it, with
  the dictionary passed in and out.
\<close>

datatype cached = Built VersionOrder | Unfinished

type_synonym version_cache = "string \<rightharpoonup> cached"

definition VersionOrder_cached ::
  "version_cache \<Rightarrow> string \<Rightarrow> (py_error + cached) \<times> version_cache" where
  "VersionOrder_cached cache raw =
     (case cache raw of
        Some obj \<Rightarrow> (Inr obj, cache)
      | None \<Rightarrow>
          (case VersionOrder_new raw of
             Inl e \<Rightarrow> (Inl e, cache(raw \<mapsto> Unfinished))
           | Inr v \<Rightarrow> (Inr (Built v), cache(raw \<mapsto> Built v))))"

subsection \<open>Comparison\<close>

fun first_decided :: "('a \<Rightarrow> bool option) \<Rightarrow> 'a list \<Rightarrow> bool option" where
  \<comment> \<open>a \<^verbatim>\<open>for\<close> loop whose body either returns a boolean or goes on to the next element\<close>
  "first_decided body [] = None"
| "first_decided body (p # ps) =
     (case body p of Some b \<Rightarrow> Some b | None \<Rightarrow> first_decided body ps)"

definition is_str :: "token \<Rightarrow> bool" where
  \<comment> \<open>\<^verbatim>\<open>isinstance(c, string_types)\<close>\<close>
  "is_str c = (case c of TStr _ \<Rightarrow> True | _ \<Rightarrow> False)"

fun py_lt :: "token \<Rightarrow> token \<Rightarrow> bool" where
  \<comment> \<open>Python's \<^verbatim>\<open><\<close> on two strings, or on two numbers (int or the float infinity)\<close>
  "py_lt (TStr a) (TStr b) = (a < b)"
| "py_lt (TInt a) (TInt b) = (a < b)"
| "py_lt (TInt a) TInf = True"
| "py_lt _ _ = False"

definition eq_body :: "token \<times> token \<Rightarrow> bool option" where
  \<comment> \<open>the body of the inner loop of \<^verbatim>\<open>_eq\<close>\<close>
  "eq_body p = (case p of (c1, c2) \<Rightarrow> if c1 \<noteq> c2 then Some False else None)"

definition VersionOrder_eq_lists :: "token \<Rightarrow> token list list \<Rightarrow> token list list \<Rightarrow> bool" where
  \<comment> \<open>\<^verbatim>\<open>_eq(self, t1, t2)\<close>; \<open>fill\<close> is \<^verbatim>\<open>self.fillvalue\<close>\<close>
  "VersionOrder_eq_lists fill t1 t2 =
     (case first_decided (\<lambda>(v1, v2). first_decided eq_body (zip_longest fill v1 v2))
             (zip_longest [] t1 t2) of
        Some b \<Rightarrow> b
      | None \<Rightarrow> True)"

definition VersionOrder_eq :: "VersionOrder \<Rightarrow> VersionOrder \<Rightarrow> bool" where
  \<comment> \<open>\<^verbatim>\<open>__eq__\<close>\<close>
  "VersionOrder_eq self other =
     (VersionOrder_eq_lists (fillvalue self) (version self) (version other)
      \<and> VersionOrder_eq_lists (fillvalue self) (local_part self) (local_part other))"

definition VersionOrder_ne :: "VersionOrder \<Rightarrow> VersionOrder \<Rightarrow> bool" where
  "VersionOrder_ne self other = (\<not> VersionOrder_eq self other)"

definition lt_body :: "token \<times> token \<Rightarrow> bool option" where
  \<comment> \<open>the body of the innermost loop of \<^verbatim>\<open>__lt__\<close>, lines 281-291\<close>
  "lt_body p =
     (case p of (c1, c2) \<Rightarrow>
        if c1 = c2 then None
        else if is_str c1 then
          (if \<not> is_str c2 then Some True else Some (py_lt c1 c2))
        else if is_str c2 then Some False
        else Some (py_lt c1 c2))"

definition lt_components :: "token \<Rightarrow> token list \<times> token list \<Rightarrow> bool option" where
  "lt_components fill p = (case p of (v1, v2) \<Rightarrow> first_decided lt_body (zip_longest fill v1 v2))"

definition lt_lists :: "token \<Rightarrow> token list list \<times> token list list \<Rightarrow> bool option" where
  "lt_lists fill p =
     (case p of (t1, t2) \<Rightarrow> first_decided (lt_components fill) (zip_longest [] t1 t2))"

definition VersionOrder_lt :: "VersionOrder \<Rightarrow> VersionOrder \<Rightarrow> bool" where
  \<comment> \<open>\<^verbatim>\<open>__lt__\<close>\<close>
  "VersionOrder_lt self other =
     (case first_decided (lt_lists (fillvalue self))
             (zip [version self, local_part self] [version other, local_part other]) of
        Some b \<Rightarrow> b
      | None \<Rightarrow> False)"

definition VersionOrder_gt :: "VersionOrder \<Rightarrow> VersionOrder \<Rightarrow> bool" where
  "VersionOrder_gt self other = VersionOrder_lt other self"

definition VersionOrder_le :: "VersionOrder \<Rightarrow> VersionOrder \<Rightarrow> bool" where
  "VersionOrder_le self other = (\<not> VersionOrder_lt other self)"

definition VersionOrder_ge :: "VersionOrder \<Rightarrow> VersionOrder \<Rightarrow> bool" where
  "VersionOrder_ge self other = (\<not> VersionOrder_lt self other)"

definition compare_versions ::
  "(VersionOrder \<Rightarrow> VersionOrder \<Rightarrow> bool) \<Rightarrow> string \<Rightarrow> string \<Rightarrow> py_error + bool" where
  \<comment> \<open>\<^verbatim>\<open>VersionOrder(a) op VersionOrder(b)\<close>\<close>
  "compare_versions opr a b =
     (case VersionOrder_new a of
        Inl e \<Rightarrow> Inl e
      | Inr va \<Rightarrow> (case VersionOrder_new b of Inl e \<Rightarrow> Inl e | Inr vb \<Rightarrow> Inr (opr va vb)))"

definition epoch :: "VersionOrder \<Rightarrow> nat option" where
  \<comment> \<open>the epoch of a parsed version: the first component of \<^verbatim>\<open>self.version\<close>, which line 207
     builds from \<^verbatim>\<open>epoch\<close>\<close>
  "epoch v = (case version v of [TInt n] # _ \<Rightarrow> Some n | _ \<Rightarrow> None)"

definition epoch_text :: "string \<Rightarrow> nat" where
  \<comment> \<open>the epoch a normalised string states: the integer before \<^verbatim>\<open>!\<close>, or 0 without one\<close>
  "epoch_text norm =
     (let pieces = split_on (CHR ''!'') norm in
      if length pieces = 1 then 0 else int_of_str (pieces ! 0))"

definition VersionOrder_startswith :: "VersionOrder \<Rightarrow> VersionOrder \<Rightarrow> py_error + bool" where
  \<comment> \<open>\<^verbatim>\<open>startswith(self, other)\<close>; an index out of range raises \<^verbatim>\<open>IndexError\<close>\<close>
  "VersionOrder_startswith self other =
     (let fill = fillvalue self in
      if local_part other \<noteq> [] \<and>
         \<not> VersionOrder_eq_lists fill (version self) (version other) then Inr False
      else if local_part other = [] \<and> version other = [] then Inr True
      else
        let t1 = (if local_part other \<noteq> [] then local_part self else version self);
            t2 = (if local_part other \<noteq> [] then local_part other else version other);
            nt = length t2 - 1
        in if \<not> VersionOrder_eq_lists fill (take nt t1) (take nt t2) then Inr False
           else
             let v1 = (if length t1 \<le> nt then [] else t1 ! nt);
                 v2 = t2 ! nt
             in if v2 = [] then
                  \<comment> \<open>\<^verbatim>\<open>nt = -1\<close>: the slices drop the last element, then \<^verbatim>\<open>v2[-1]\<close> raises\<close>
                  (if \<not> VersionOrder_eq_lists fill [butlast v1] [[]] then Inr False
                   else Inl IndexError)
                else
                  let nt = length v2 - 1 in
                  if \<not> VersionOrder_eq_lists fill [take nt v1] [take nt v2] then Inr False
                  else
                    let c1 = (if length v1 \<le> nt then fill else v1 ! nt);
                        c2 = v2 ! nt
                    in case c2 of
                         TStr s2 \<Rightarrow> Inr (case c1 of TStr s1 \<Rightarrow> startswith s1 s2 | _ \<Rightarrow> False)
                       | _ \<Rightarrow> Inr (c1 = c2))"

section \<open>The regular expression module\<close>

text \<open>
  Python's \<^verbatim>\<open>re\<close> is a library, not code of this repository: the model takes it as a
  parameter. A value of \<open>re_module\<close> stands for \<^verbatim>\<open>re.compile\<close>: \<open>None\<close> where it raises
  \<^verbatim>\<open>re.error\<close>, and else the truth value of the compiled pattern's \<^verbatim>\<open>match\<close> on a string.
  The three patterns the module itself fixes are modelled directly, next to their use.

  \<open>re_fragment\<close> is a concrete instance for evaluation. It follows Python on the patterns
  \<^verbatim>\<open>^(?:body)$\<close> and \<^verbatim>\<open>^body$\<close> whose body is a sequence of ordinary characters, \<^verbatim>\<open>.\<close>,
  escaped non-alphanumeric characters, and such atoms followed by \<^verbatim>\<open>*\<close>; it is \<open>None\<close>
  on every other pattern, so it is only used on patterns of that shape.
\<close>

type_synonym re_module = "string \<Rightarrow> (string \<Rightarrow> bool) option"

datatype rx_atom = RChar char | RAny

datatype rx_item = Once rx_atom | Star rx_atom

definition backslash :: char where
  "backslash = CHR 0x5C"

definition is_alnum :: "char \<Rightarrow> bool" where
  "is_alnum c =
     (c \<in> set ''0123456789abcdefghijklmnopqrstuvwxyzABCDEFGHIJKLMNOPQRSTUVWXYZ'')"

definition is_meta :: "char \<Rightarrow> bool" where
  "is_meta c = (c \<in> set ''.^$*+?{}[]|()'' \<or> c = backslash)"

fun rx_parse :: "string \<Rightarrow> rx_item list option"
  and rx_starred :: "rx_atom \<Rightarrow> string \<Rightarrow> rx_item list option" where
  "rx_parse [] = Some []"
| "rx_parse (c # cs) =
     (if c = backslash then
        (case cs of
           [] \<Rightarrow> None
         | d # ds \<Rightarrow> if is_alnum d \<or> 128 \<le> (of_char d :: nat) then None
                    else rx_starred (RChar d) ds)
      else if c = CHR ''.'' then rx_starred RAny cs
      else if is_meta c then None
      else rx_starred (RChar c) cs)"
| "rx_starred a [] = Some [Once a]"
| "rx_starred a (c # cs) =
     (if c = CHR ''*'' then map_option (\<lambda>r. Star a # r) (rx_parse cs)
      else map_option (\<lambda>r. Once a # r) (rx_parse (c # cs)))"

definition rx_atom_ok :: "rx_atom \<Rightarrow> char \<Rightarrow> bool" where
  \<comment> \<open>\<^verbatim>\<open>.\<close> matches every character but the newline\<close>
  "rx_atom_ok a c = (case a of RChar d \<Rightarrow> c = d | RAny \<Rightarrow> c \<noteq> CHR 0x0A)"

fun rx_match :: "rx_item list \<Rightarrow> string \<Rightarrow> bool" where
  \<comment> \<open>the items, then \<^verbatim>\<open>$\<close>\<close>
  "rx_match [] s = dollar s"
| "rx_match (Once a # r) [] = False"
| "rx_match (Once a # r) (c # cs) = (rx_atom_ok a c \<and> rx_match r cs)"
| "rx_match (Star a # r) [] = rx_match r []"
| "rx_match (Star a # r) (c # cs) =
     (rx_match r (c # cs) \<or> (rx_atom_ok a c \<and> rx_match (Star a # r) cs))"

definition re_fragment :: re_module where
  "re_fragment pat =
     (if startswith pat ''^(?:'' \<and> endswith pat '')$'' \<and> 6 \<le> length pat then
        map_option rx_match (rx_parse (take (length pat - 6) (drop 4 pat)))
      else if startswith pat ''^'' \<and> endswith pat ''$'' \<and> 2 \<le> length pat then
        map_option rx_match (rx_parse (take (length pat - 2) (drop 1 pat)))
      else None)"

section \<open>VersionSpec\<close>

text \<open>
  A \<^verbatim>\<open>_VersionSpec\<close> object holds \<^verbatim>\<open>spec\<close> and the bound method \<^verbatim>\<open>match\<close>, and with some
  methods \<^verbatim>\<open>op\<close> and \<^verbatim>\<open>cmp\<close>, or \<^verbatim>\<open>regex\<close>. The constructor of the datatype is the
  method stored in \<^verbatim>\<open>match\<close>; its first argument is \<^verbatim>\<open>spec\<close>, a string or a tuple of a tag
  and the children. The tag is the string \<^verbatim>\<open>'all'\<close> or \<^verbatim>\<open>'any'\<close> where the constructor
  parsed a string, and the builtin function \<^verbatim>\<open>all\<close> or \<^verbatim>\<open>any\<close> where \<^verbatim>\<open>__and__\<close> or
  \<^verbatim>\<open>__or__\<close> built the tuple.
\<close>

datatype relop = Op_eq | Op_ne | Op_le | Op_ge | Op_lt | Op_gt | Op_startswith

datatype tag = Str_all | Str_any | Fn_all | Fn_any

datatype VersionSpec =
    exact_match string
  | regex_match string string
  | veval_match string relop VersionOrder
  | triv_match string
  | all_match tag "VersionSpec list"
  | any_match tag "VersionSpec list"

fun lazy_nonspace_dollar :: "string \<Rightarrow> nat option" where
  \<comment> \<open>the rest of \<^verbatim>\<open>\S+?\$\<close> after its first character: the characters up to the first
     \<^verbatim>\<open>$\<close>, counted with it, none of them white space\<close>
  "lazy_nonspace_dollar [] = None"
| "lazy_nonspace_dollar (c # cs) =
     (if c = CHR ''$'' then Some 1
      else if is_space c then None
      else map_option Suc (lazy_nonspace_dollar cs))"

definition regex_split_re_match :: "string \<Rightarrow> nat option" where
  \<comment> \<open>\<^verbatim>\<open>_regex_split_re.match(spec)\<close> for \<^verbatim>\<open>(\^\S+?\$)\<close>: \<^verbatim>\<open>m.end()\<close>, or \<open>None\<close>\<close>
  "regex_split_re_match s =
     (case s of
        c # d # ds \<Rightarrow>
          if c = CHR ''^'' \<and> \<not> is_space d then map_option (\<lambda>n. n + 2) (lazy_nonspace_dollar ds)
          else None
      | _ \<Rightarrow> None)"

definition regex_split_converter :: "char \<Rightarrow> tag option" where
  "regex_split_converter c =
     (if c = CHR ''|'' then Some Str_any else if c = CHR '','' then Some Str_all else None)"

definition opdict :: "string \<Rightarrow> relop option" where
  "opdict s =
     map_of [(''=='', Op_eq), (''!='', Op_ne), (''<='', Op_le), (''>='', Op_ge),
             (''<'', Op_lt), (''>'', Op_gt)] s"

definition version_relation_re_match :: "string \<Rightarrow> (string \<times> string) option" where
  \<comment> \<open>\<^verbatim>\<open>_version_relation_re.match(spec)\<close> for \<^verbatim>\<open>(==|!=|<=|>=|<|>)(?![=<>!])(\S+)$\<close>:
     \<^verbatim>\<open>m.groups()\<close>. When a two-character operator fits and the rest fails, the
     one-character alternative is followed by \<^verbatim>\<open>=\<close> and fails at the lookahead.\<close>
  "version_relation_re_match s =
     (let two = take 2 s;
          n = (if two \<in> set [''=='', ''!='', ''<='', ''>=''] then 2
               else if take 1 s \<in> set [''<'', ''>''] then 1 else 0);
          rest = drop n s;
          b = takeWhile (\<lambda>c. \<not> is_space c) rest
      in if n = 0 then None
         else if rest \<noteq> [] \<and> hd rest \<in> set ''=<>!'' then None
         else if b \<noteq> [] \<and> dollar (dropWhile (\<lambda>c. \<not> is_space c) rest) then Some (take n s, b)
         else None)"

fun sequence_err :: "(py_error + 'a) list \<Rightarrow> py_error + 'a list" where
  \<comment> \<open>the results of a generator consumed by \<^verbatim>\<open>tuple\<close>: the first exception propagates\<close>
  "sequence_err [] = Inr []"
| "sequence_err (r # rs) =
     (case r of
        Inl e \<Rightarrow> Inl e
      | Inr x \<Rightarrow> (case sequence_err rs of Inl e \<Rightarrow> Inl e | Inr xs \<Rightarrow> Inr (x # xs)))"

definition VersionSpec_of_tuple :: "tag \<Rightarrow> VersionSpec list \<Rightarrow> VersionSpec" where
  \<comment> \<open>\<^verbatim>\<open>_VersionSpec((tag, children))\<close>, line 344: \<^verbatim>\<open>spec[0] == 'all'\<close> holds of the string only\<close>
  "VersionSpec_of_tuple t children =
     (if t = Str_all then all_match t children else any_match t children)"

definition wildcard_rx :: "string \<Rightarrow> string" where
  \<comment> \<open>lines 372-375\<close>
  "wildcard_rx s =
     ''^(?:''
     @ replace_char (CHR ''*'') ''.*''
         (replace_char (CHR ''+'') [backslash, CHR ''+'']
           (replace_char (CHR ''.'') [backslash, CHR ''.''] s))
     @ '')$''"

function VersionSpec_new :: "re_module \<Rightarrow> string \<Rightarrow> py_error + VersionSpec" where
  \<comment> \<open>\<^verbatim>\<open>_VersionSpec.__new__\<close> on a string\<close>
  "VersionSpec_new re s =
     (case regex_split_re_match s of
        Some mend \<Rightarrow>
          if mend < length s then
            (case regex_split_converter (s ! mend) of
               None \<Rightarrow> Inl KeyError
             | Some t \<Rightarrow>
                 (case sequence_err (map (VersionSpec_new re) [take mend s, drop (mend + 1) s]) of
                    Inl e \<Rightarrow> Inl e
                  | Inr children \<Rightarrow> Inr (VersionSpec_of_tuple t children)))
          else
            (case re s of
               None \<Rightarrow> Inl ReError
             | Some _ \<Rightarrow> Inr (regex_match (take mend s) s))
      | None \<Rightarrow>
          if CHR ''|'' \<in> set s then
            (case sequence_err (map (VersionSpec_new re) (split_on (CHR ''|'') s)) of
               Inl e \<Rightarrow> Inl e
             | Inr children \<Rightarrow> Inr (VersionSpec_of_tuple Str_any children))
          else if CHR '','' \<in> set s then
            (case sequence_err (map (VersionSpec_new re) (split_on (CHR '','') s)) of
               Inl e \<Rightarrow> Inl e
             | Inr children \<Rightarrow> Inr (VersionSpec_of_tuple Str_all children))
          else if s \<noteq> [] \<and> hd s \<in> set ''=<>!'' then
            (case version_relation_re_match s of
               None \<Rightarrow> Inl (ValueError ''Invalid spec'')
             | Some (opr, b) \<Rightarrow>
                 (case opdict opr of
                    None \<Rightarrow> Inl KeyError
                  | Some f \<Rightarrow>
                      (case VersionOrder_new b of
                         Inl e \<Rightarrow> Inl e
                       | Inr c \<Rightarrow> Inr (veval_match s f c))))
          else if s = ''*'' then Inr (triv_match s)
          else if CHR ''*'' \<in> set (rstrip_char (CHR ''*'') s) then
            (case re (wildcard_rx s) of
               None \<Rightarrow> Inl ReError
             | Some _ \<Rightarrow> Inr (regex_match s (wildcard_rx s)))
          else if endswith s ''*'' then
            (case VersionOrder_new (rstrip_char (CHR ''.'') (rstrip_char (CHR ''*'') s)) of
               Inl e \<Rightarrow> Inl e
             | Inr c \<Rightarrow> Inr (veval_match s Op_startswith c))
          else Inr (exact_match s))"
  by pat_completeness auto

lemma split_on_not_Nil: "split_on c s \<noteq> []"
  by (induction s) (auto simp: Let_def)

lemma split_on_length_le: "x \<in> set (split_on c s) \<Longrightarrow> length x \<le> length s"
proof (induction s arbitrary: x)
  case Nil
  then show ?case by simp
next
  case (Cons d s)
  have ne: "split_on c s \<noteq> []" by (rule split_on_not_Nil)
  show ?case
  proof (cases "d = c")
    case True
    with Cons show ?thesis by (auto simp: Let_def le_Suc_eq)
  next
    case False
    with Cons.prems have "x = d # hd (split_on c s) \<or> x \<in> set (tl (split_on c s))"
      by (simp add: Let_def)
    then show ?thesis
    proof
      assume "x = d # hd (split_on c s)"
      moreover from ne have "hd (split_on c s) \<in> set (split_on c s)" by simp
      ultimately show ?thesis using Cons.IH by fastforce
    next
      assume "x \<in> set (tl (split_on c s))"
      with ne have "x \<in> set (split_on c s)" by (meson list.set_sel(2))
      with Cons.IH show ?thesis by fastforce
    qed
  qed
qed

lemma split_on_length_less:
  "c \<in> set s \<Longrightarrow> x \<in> set (split_on c s) \<Longrightarrow> length x < length s"
proof (induction s arbitrary: x)
  case Nil
  then show ?case by simp
next
  case (Cons d s)
  have ne: "split_on c s \<noteq> []" by (rule split_on_not_Nil)
  show ?case
  proof (cases "d = c")
    case True
    with Cons.prems have "x = [] \<or> x \<in> set (split_on c s)" by (simp add: Let_def)
    then show ?thesis using split_on_length_le [of x c s] by auto
  next
    case False
    with Cons.prems have cs: "c \<in> set s" by auto
    from False Cons.prems have "x = d # hd (split_on c s) \<or> x \<in> set (tl (split_on c s))"
      by (simp add: Let_def)
    then show ?thesis
    proof
      assume "x = d # hd (split_on c s)"
      moreover from ne have "hd (split_on c s) \<in> set (split_on c s)" by simp
      ultimately show ?thesis using Cons.IH [OF cs] by fastforce
    next
      assume "x \<in> set (tl (split_on c s))"
      with ne have "x \<in> set (split_on c s)" by (meson list.set_sel(2))
      with Cons.IH [OF cs] show ?thesis by fastforce
    qed
  qed
qed

termination VersionSpec_new
proof (relation "measure (\<lambda>(re, s). length s)")
  show "wf (measure (\<lambda>(re :: re_module, s :: string). length s))" by simp
qed (auto simp: split_on_length_less)

declare VersionSpec_new.simps [simp del]

definition apply_relop :: "relop \<Rightarrow> VersionOrder \<Rightarrow> VersionOrder \<Rightarrow> py_error + bool" where
  \<comment> \<open>\<^verbatim>\<open>self.op(a, b)\<close>: an entry of \<^verbatim>\<open>_opdict\<close>, or \<^verbatim>\<open>_VersionOrder.startswith\<close>\<close>
  "apply_relop f a b =
     (case f of
        Op_eq \<Rightarrow> Inr (VersionOrder_eq a b)
      | Op_ne \<Rightarrow> Inr (VersionOrder_ne a b)
      | Op_le \<Rightarrow> Inr (VersionOrder_le a b)
      | Op_ge \<Rightarrow> Inr (VersionOrder_ge a b)
      | Op_lt \<Rightarrow> Inr (VersionOrder_lt a b)
      | Op_gt \<Rightarrow> Inr (VersionOrder_gt a b)
      | Op_startswith \<Rightarrow> VersionOrder_startswith a b)"

fun py_all :: "(py_error + bool) list \<Rightarrow> py_error + bool" where
  \<comment> \<open>\<^verbatim>\<open>all(...)\<close> over a generator: stops at the first false value or exception\<close>
  "py_all [] = Inr True"
| "py_all (r # rs) =
     (case r of Inl e \<Rightarrow> Inl e | Inr b \<Rightarrow> if b then py_all rs else Inr False)"

fun py_any :: "(py_error + bool) list \<Rightarrow> py_error + bool" where
  \<comment> \<open>\<^verbatim>\<open>any(...)\<close> over a generator: stops at the first true value or exception\<close>
  "py_any [] = Inr False"
| "py_any (r # rs) =
     (case r of Inl e \<Rightarrow> Inl e | Inr b \<Rightarrow> if b then Inr True else py_any rs)"

fun VersionSpec_match :: "re_module \<Rightarrow> VersionSpec \<Rightarrow> string \<Rightarrow> py_error + bool" where
  \<comment> \<open>\<^verbatim>\<open>self.match(vspec)\<close>\<close>
  "VersionSpec_match re (exact_match s) v = Inr (s = v)"
| "VersionSpec_match re (regex_match s pat) v =
     (case re pat of None \<Rightarrow> Inl ReError | Some m \<Rightarrow> Inr (m v))"
| "VersionSpec_match re (veval_match s f c) v =
     (case VersionOrder_new v of Inl e \<Rightarrow> Inl e | Inr a \<Rightarrow> apply_relop f a c)"
| "VersionSpec_match re (triv_match s) v = Inr True"
| "VersionSpec_match re (all_match t children) v =
     py_all (map (\<lambda>x. VersionSpec_match re x v) children)"
| "VersionSpec_match re (any_match t children) v =
     py_any (map (\<lambda>x. VersionSpec_match re x v) children)"

definition tuple_str :: "tag \<Rightarrow> bool \<Rightarrow> (bool \<Rightarrow> string) list \<Rightarrow> string" where
  \<comment> \<open>lines 389-393 of \<^verbatim>\<open>str\<close>; \<open>strs\<close> are the children's \<^verbatim>\<open>str\<close> methods\<close>
  "tuple_str t inand strs =
     (let newand = (\<not> inand \<and> t = Fn_all);
          inand = (inand \<and> t = Fn_any);
          s = join (if t = Str_all then '','' else ''|'') (map (\<lambda>f. f newand) strs)
      in if inand then ''('' @ s @ '')'' else s)"

fun VersionSpec_str :: "VersionSpec \<Rightarrow> bool \<Rightarrow> string" where
  \<comment> \<open>\<^verbatim>\<open>str(self, inand=False)\<close>\<close>
  "VersionSpec_str (exact_match s) inand = s"
| "VersionSpec_str (regex_match s pat) inand = s"
| "VersionSpec_str (veval_match s f c) inand = s"
| "VersionSpec_str (triv_match s) inand = s"
| "VersionSpec_str (all_match t children) inand =
     tuple_str t inand (map VersionSpec_str children)"
| "VersionSpec_str (any_match t children) inand =
     tuple_str t inand (map VersionSpec_str children)"

definition VersionSpec_is_exact :: "VersionSpec \<Rightarrow> bool" where
  \<comment> \<open>\<^verbatim>\<open>self.match == self.exact_match_\<close>\<close>
  "VersionSpec_is_exact v = (case v of exact_match _ \<Rightarrow> True | _ \<Rightarrow> False)"

definition VersionSpec_and :: "VersionSpec \<Rightarrow> VersionSpec \<Rightarrow> VersionSpec" where
  \<comment> \<open>\<^verbatim>\<open>__and__\<close>: the tuple is tagged with the builtin \<^verbatim>\<open>all\<close>\<close>
  "VersionSpec_and self other = VersionSpec_of_tuple Fn_all [self, other]"

definition VersionSpec_or :: "VersionSpec \<Rightarrow> VersionSpec \<Rightarrow> VersionSpec" where
  \<comment> \<open>\<^verbatim>\<open>__or__\<close>: the tuple is tagged with the builtin \<^verbatim>\<open>any\<close>\<close>
  "VersionSpec_or self other = VersionSpec_of_tuple Fn_any [self, other]"

section \<open>MatchSpec\<close>

text \<open>
  The keyword arguments \<^verbatim>\<open>target\<close> and \<^verbatim>\<open>optional\<close> default to \<^verbatim>\<open>Ellipsis\<close>. The attributes
  \<^verbatim>\<open>version\<close> and \<^verbatim>\<open>build\<close> are set on some paths only, to a string or to a compiled
  object; \<^verbatim>\<open>match_fast\<close> holds one of four bound methods.
\<close>

datatype 'a kwarg = Ellipsis | Given 'a

datatype version_attr = Version_str string | Version_spec VersionSpec

datatype build_attr = Build_str string | Build_re string

datatype match_fast = match_any | match_version | match_exact | match_full

record MatchSpec =
  ms_target :: "string option"
  ms_optional :: bool
  ms_spec :: string
  ms_name :: string
  ms_strictness :: nat
  ms_version :: "version_attr option"
  ms_build :: "build_attr option"
  ms_match_fast :: match_fast

datatype spec_arg = From_str string | From_spec MatchSpec

record Dist =
  dist_name :: string
  dist_version :: string
  dist_build_string :: string

definition CONDA_TARBALL_EXTENSION :: string where
  "CONDA_TARBALL_EXTENSION = ''.tar.bz2''"

definition partition :: "char \<Rightarrow> string \<Rightarrow> string \<times> string \<times> string" where
  \<comment> \<open>\<^verbatim>\<open>s.partition(c)\<close>\<close>
  "partition c s =
     (if c \<in> set s
      then (takeWhile (\<lambda>d. d \<noteq> c) s, [c], drop 1 (dropWhile (\<lambda>d. d \<noteq> c) s))
      else (s, [], []))"

function py_split :: "string \<Rightarrow> string list" where
  \<comment> \<open>\<^verbatim>\<open>s.split()\<close>: the maximal runs of characters that are not white space\<close>
  "py_split s =
     (let t = dropWhile is_space s in
      if t = [] then []
      else takeWhile (\<lambda>c. \<not> is_space c) t # py_split (dropWhile (\<lambda>c. \<not> is_space c) t))"
  by pat_completeness auto
termination
proof (relation "measure length")
  fix s t :: string
  assume t: "t = dropWhile is_space s" and ne: "t \<noteq> []"
  from ne have "\<not> is_space (hd t)" unfolding t by (rule hd_dropWhile)
  with ne have "length (dropWhile (\<lambda>c. \<not> is_space c) t) < length t"
    by (cases t) (auto simp: length_dropWhile_le less_Suc_eq_le)
  also have "length t \<le> length s" unfolding t by (rule length_dropWhile_le)
  finally show "(dropWhile (\<lambda>c. \<not> is_space c) t, s) \<in> measure length" by simp
qed simp

declare py_split.simps [simp del]

fun apply_oparts :: "string list \<Rightarrow> string option \<Rightarrow> bool \<Rightarrow> py_error + string option \<times> bool" where
  \<comment> \<open>the loop of lines 431-437 over the attribute list\<close>
  "apply_oparts [] tgt opt = Inr (tgt, opt)"
| "apply_oparts (opart # rest) tgt opt =
     (if opart = ''optional'' then apply_oparts rest tgt True
      else if startswith opart ''target='' then
        apply_oparts rest (Some (strip (split_on (CHR ''='') opart ! 1))) opt
      else Inl (ValueError ''Invalid MatchSpec''))"

definition parse_oparts ::
  "string \<Rightarrow> string option \<Rightarrow> bool \<Rightarrow> py_error + string \<times> string option \<times> bool" where
  \<comment> \<open>lines 427-437: the text before the first parenthesis, and the attributes\<close>
  "parse_oparts s tgt opt =
     (case partition (CHR ''('') s of
        (head_text, _, oparts) \<Rightarrow>
          if oparts \<noteq> [] then
            (if strip oparts = [] then Inl IndexError
             else if last (strip oparts) \<noteq> CHR '')'' then Inl (ValueError ''Invalid MatchSpec'')
             else
               (case apply_oparts (split_on (CHR '','') (butlast (strip oparts))) tgt opt of
                  Inl e \<Rightarrow> Inl e
                | Inr (tgt', opt') \<Rightarrow> Inr (head_text, tgt', opt')))
          else Inr (head_text, tgt, opt))"

definition MatchSpec_parts :: "string \<Rightarrow> string list" where
  \<comment> \<open>line 439\<close>
  "MatchSpec_parts s = (if endswith s CONDA_TARBALL_EXTENSION then [s] else py_split s)"

definition build_rx :: "string \<Rightarrow> string" where
  \<comment> \<open>line 463\<close>
  "build_rx b = ''^(?:'' @ replace_char (CHR ''*'') ''.*'' b @ '')$''"

definition MatchSpec_compile ::
  "re_module \<Rightarrow> string option \<Rightarrow> bool \<Rightarrow> bool \<Rightarrow> string \<Rightarrow> py_error + MatchSpec" where
  \<comment> \<open>lines 438-466; \<open>tgt\<close> and \<open>opt\<close> are \<^verbatim>\<open>self.target\<close> and \<^verbatim>\<open>self.optional\<close>\<close>
  "MatchSpec_compile re tgt opt norm_arg head_text =
     (let s = strip head_text;
          parts = MatchSpec_parts s;
          nparts = length parts
      in if \<not> (1 \<le> nparts \<and> nparts \<le> 3) then Inl (AssertionError s)
         else
           let self = \<lparr>ms_target = tgt, ms_optional = opt, ms_spec = s, ms_name = parts ! 0,
                       ms_strictness = 1, ms_version = None, ms_build = None,
                       ms_match_fast = match_any\<rparr>
           in if nparts = 1 then Inr self
              else
                (case VersionSpec_new re (parts ! 1) of
                   Inl e \<Rightarrow> Inl e
                 | Inr vspec \<Rightarrow>
                     if VersionSpec_is_exact vspec \<and> nparts > 2 \<and> CHR ''*'' \<notin> set (parts ! 2)
                     then Inr (self\<lparr>ms_version := Some (Version_str (parts ! 1)),
                                    ms_build := Some (Build_str (parts ! 2)),
                                    ms_match_fast := match_exact, ms_strictness := 3\<rparr>)
                     else
                       (case (if VersionSpec_is_exact vspec \<and> norm_arg
                                 \<and> \<not> endswith (parts ! 1) ''*''
                              then
                                (let parts' = parts[1 := parts ! 1 @ ''*''] in
                                 case VersionSpec_new re (parts' ! 1) of
                                   Inl e \<Rightarrow> Inl e
                                 | Inr vspec' \<Rightarrow> Inr (vspec', join '' '' parts'))
                              else Inr (vspec, s)) of
                          Inl e \<Rightarrow> Inl e
                        | Inr (vspec, s') \<Rightarrow>
                            let self = self\<lparr>ms_spec := s', ms_strictness := 2,
                                            ms_version := Some (Version_spec vspec)\<rparr>
                            in if nparts = 2 then Inr (self\<lparr>ms_match_fast := match_version\<rparr>)
                               else
                                 (case re (build_rx (parts ! 2)) of
                                    None \<Rightarrow> Inl ReError
                                  | Some _ \<Rightarrow>
                                      Inr (self\<lparr>ms_build := Some (Build_re (build_rx (parts ! 2))),
                                                 ms_match_fast := match_full\<rparr>)))))"

definition kw_target :: "string option kwarg \<Rightarrow> string option" where
  \<comment> \<open>line 425: \<^verbatim>\<open>None if target is Ellipsis else target\<close>\<close>
  "kw_target t = (case t of Ellipsis \<Rightarrow> None | Given x \<Rightarrow> x)"

definition kw_optional :: "bool kwarg \<Rightarrow> bool" where
  \<comment> \<open>line 426: \<^verbatim>\<open>False if optional is Ellipsis else bool(optional)\<close>\<close>
  "kw_optional b = (case b of Ellipsis \<Rightarrow> False | Given x \<Rightarrow> x)"

definition MatchSpec_new ::
  "re_module \<Rightarrow> spec_arg \<Rightarrow> string option kwarg \<Rightarrow> bool kwarg \<Rightarrow> bool \<Rightarrow> py_error + MatchSpec" where
  \<comment> \<open>\<^verbatim>\<open>_MatchSpec.__new__(cls, spec, target=Ellipsis, optional=Ellipsis, normalize=False)\<close>\<close>
  "MatchSpec_new re arg tgt opt norm_arg =
     (case (case arg of
              From_str s \<Rightarrow> Inr (s, tgt, opt)
            | From_spec m \<Rightarrow>
                if tgt = Ellipsis \<and> opt = Ellipsis \<and> \<not> norm_arg then Inl m
                else Inr (ms_spec m,
                          (if tgt = Ellipsis then Given (ms_target m) else tgt),
                          (if opt = Ellipsis then Given (ms_optional m) else opt))) of
        Inl m \<Rightarrow> Inr m
      | Inr (s, tgt, opt) \<Rightarrow>
          (case parse_oparts s (kw_target tgt) (kw_optional opt) of
             Inl e \<Rightarrow> Inl e
           | Inr (head_text, tgt', opt') \<Rightarrow> MatchSpec_compile re tgt' opt' norm_arg head_text))"

definition MatchSpec_match_fast :: "re_module \<Rightarrow> MatchSpec \<Rightarrow> string \<Rightarrow> string \<Rightarrow> py_error + bool" where
  \<comment> \<open>\<^verbatim>\<open>self.match_fast(version, build)\<close>: the four methods of lines 474-484; an attribute
     that is not set, or not of the kind the method uses, is an \<^verbatim>\<open>AttributeError\<close>\<close>
  "MatchSpec_match_fast re self ver bld =
     (case ms_match_fast self of
        match_any \<Rightarrow> Inr True
      | match_version \<Rightarrow>
          (case ms_version self of
             Some (Version_spec v) \<Rightarrow> VersionSpec_match re v ver
           | _ \<Rightarrow> Inl AttributeError)
      | match_exact \<Rightarrow>
          (case (ms_build self, ms_version self) of
             (Some (Build_str b), Some (Version_str v)) \<Rightarrow> Inr (bld = b \<and> v = ver)
           | _ \<Rightarrow> Inl AttributeError)
      | match_full \<Rightarrow>
          (case (ms_build self, ms_version self) of
             (Some (Build_re pat), Some (Version_spec v)) \<Rightarrow>
               (case re pat of
                  None \<Rightarrow> Inl ReError
                | Some m \<Rightarrow> if m bld then VersionSpec_match re v ver else Inr False)
           | _ \<Rightarrow> Inl AttributeError))"

definition MatchSpec_match :: "re_module \<Rightarrow> MatchSpec \<Rightarrow> Dist \<Rightarrow> py_error + bool" where
  \<comment> \<open>\<^verbatim>\<open>match(self, dist)\<close>\<close>
  "MatchSpec_match re self dist =
     (if dist_name dist \<noteq> ms_name self then Inr False
      else MatchSpec_match_fast re self (dist_version dist) (dist_build_string dist))"

definition MatchSpec_matches :: "re_module \<Rightarrow> string \<Rightarrow> Dist \<Rightarrow> py_error + bool" where
  \<comment> \<open>\<^verbatim>\<open>_MatchSpec(s).match(dist)\<close>\<close>
  "MatchSpec_matches re s dist =
     (case MatchSpec_new re (From_str s) Ellipsis Ellipsis False of
        Inl e \<Rightarrow> Inl e
      | Inr m \<Rightarrow> MatchSpec_match re m dist)"

definition MatchSpec_is_exact :: "MatchSpec \<Rightarrow> bool" where
  "MatchSpec_is_exact self = (ms_match_fast self = match_exact)"

definition MatchSpec_is_simple :: "MatchSpec \<Rightarrow> bool" where
  "MatchSpec_is_simple self = (ms_match_fast self = match_any)"

definition MatchSpec_hash :: "(string \<Rightarrow> 'h) \<Rightarrow> MatchSpec \<Rightarrow> 'h" where
  \<comment> \<open>\<^verbatim>\<open>__hash__\<close>; \<open>py_hash\<close> is the builtin \<^verbatim>\<open>hash\<close> on strings\<close>
  "MatchSpec_hash py_hash self = py_hash (ms_spec self)"

definition MatchSpec_str :: "MatchSpec \<Rightarrow> string" where
  \<comment> \<open>\<^verbatim>\<open>__str__\<close>; an empty target string is false\<close>
  "MatchSpec_str self =
     (let res = ms_spec self;
          tgt = (case ms_target self of None \<Rightarrow> [] | Some t \<Rightarrow> t)
      in if ms_optional self \<or> tgt \<noteq> [] then
           res @ '' ('' @ join '',''
             ((if ms_optional self then [''optional''] else [])
              @ (if tgt \<noteq> [] then [''target='' @ tgt] else [])) @ '')''
         else res)"

section \<open>Auxiliary notions\<close>

text \<open>
  Auxiliary notions for the proofs, not part of the program. A loop body that returns
  \<open>None\<close> (equal so far), \<open>Some True\<close> (less) or \<open>Some False\<close> (greater) is a three-way
  comparison when \<open>None\<close> is a congruence and \<open>Some True\<close> is transitive; \<open>padded\<close> is the
  loop over \<^verbatim>\<open>zip_longest\<close>, which lifts a three-way comparison from elements to lists.
\<close>

definition cmp3 :: "('a \<times> 'a \<Rightarrow> bool option) \<Rightarrow> bool" where
  "cmp3 f \<longleftrightarrow>
     (\<forall>x. f (x, x) = None)
   \<and> (\<forall>x y. f (y, x) = map_option Not (f (x, y)))
   \<and> (\<forall>x y z. f (x, y) = None \<longrightarrow> f (x, z) = f (y, z))
   \<and> (\<forall>x y z. f (x, y) = Some True \<longrightarrow> f (y, z) = Some True \<longrightarrow> f (x, z) = Some True)"

definition hd_or :: "'a \<Rightarrow> 'a list \<Rightarrow> 'a" where
  "hd_or d xs = (case xs of [] \<Rightarrow> d | x # _ \<Rightarrow> x)"

definition padded :: "('a \<times> 'a \<Rightarrow> bool option) \<Rightarrow> 'a \<Rightarrow> 'a list \<times> 'a list \<Rightarrow> bool option" where
  "padded f d p = (case p of (xs, ys) \<Rightarrow> first_decided f (zip_longest d xs ys))"

definition vo_cmp :: "token \<Rightarrow> VersionOrder \<times> VersionOrder \<Rightarrow> bool option" where
  \<comment> \<open>the two loops of \<^verbatim>\<open>__lt__\<close> before the final \<^verbatim>\<open>return\<close>\<close>
  "vo_cmp fill p =
     (case p of (a, b) \<Rightarrow>
        first_decided (lt_lists fill) [(version a, version b), (local_part a, local_part b)])"

definition target_text :: "MatchSpec \<Rightarrow> string" where
  \<comment> \<open>the target as \<^verbatim>\<open>__str__\<close> tests and prints it: \<^verbatim>\<open>None\<close> and the empty string are false\<close>
  "target_text self = (case ms_target self of None \<Rightarrow> [] | Some t \<Rightarrow> t)"

definition cache_inv :: "version_cache \<Rightarrow> bool" where
  \<comment> \<open>every entry is what the constructor leaves behind for its key\<close>
  "cache_inv cache =
     (\<forall>raw obj. cache raw = Some obj \<longrightarrow>
        obj = (case VersionOrder_new raw of Inl _ \<Rightarrow> Unfinished | Inr v \<Rightarrow> Built v))"

section \<open>Evaluation\<close>

lemmas string_eval =
  lower_def lower_char_def strip_def lstrip_def rstrip_def rstrip_char_def is_space_def
  dollar_def replace_char_def isdigit_def is_digit_def int_of_str_def digit_val_def
  startswith_def endswith_def Let_def

lemmas VersionOrder_eval =
  compare_versions_def VersionOrder_new_def VersionOrder_split_def find_epoch_def
  find_local_def version_check_re_def version_char_def parse_component_def convert_run_def
  cclass_of_def VersionOrder_lt_def lt_lists_def lt_components_def lt_body_def is_str_def
  VersionOrder_eq_def VersionOrder_eq_lists_def eq_body_def VersionOrder_gt_def
  VersionOrder_le_def VersionOrder_ge_def VersionOrder_ne_def string_eval

lemmas VersionSpec_eval =
  VersionSpec_new.simps regex_split_re_match_def regex_split_converter_def opdict_def
  version_relation_re_match_def VersionSpec_of_tuple_def wildcard_rx_def backslash_def
  apply_relop_def VersionOrder_startswith_def VersionSpec_is_exact_def tuple_str_def
  VersionSpec_and_def VersionSpec_or_def VersionOrder_eval

lemmas MatchSpec_eval =
  MatchSpec_matches_def MatchSpec_new_def kw_target_def kw_optional_def parse_oparts_def
  partition_def MatchSpec_compile_def MatchSpec_parts_def CONDA_TARBALL_EXTENSION_def py_split.simps
  build_rx_def MatchSpec_match_def MatchSpec_match_fast_def MatchSpec_str_def
  MatchSpec_hash_def VersionSpec_eval

lemmas re_fragment_eval =
  re_fragment_def is_alnum_def is_meta_def rx_atom_ok_def

section \<open>The documented ordering chain\<close>

text \<open>
  C2. The chain of the class docstring, link by link. Every link holds as documented but
  the first: with \<^verbatim>\<open>fillvalue = 0\<close> a missing component equals \<^verbatim>\<open>0\<close>, so \<^verbatim>\<open>0.4\<close> and
  \<^verbatim>\<open>0.4.0\<close> are equal, and \<^verbatim>\<open>0.4 < 0.4.0\<close> is false.
\<close>

theorem documented_chain_first_link_fails:
  "compare_versions VersionOrder_lt ''0.4'' ''0.4.0'' = Inr False"
  by (simp add: VersionOrder_eval)

text \<open>
  C2, as amended: \<^verbatim>\<open>0.4 == 0.4.0 < 0.4.1.rc == 0.4.1.RC < 0.4.1 < 0.5a1 < 0.5b3 < 0.5C1 == 0.5c1
  < 0.5 < 1.1dev1 < 1.1a1 < 1.1.0dev1 == 1.1.dev1 < 1.1.a1 < 1.1.0rc1 < 1.1.0 == 1.1
  < 1.1.0post1 == 1.1.post1 < 1.1post1\<close>.
\<close>

theorem documented_chain:
  "compare_versions VersionOrder_eq ''0.4'' ''0.4.0'' = Inr True
 \<and> compare_versions VersionOrder_lt ''0.4.0'' ''0.4.1.rc'' = Inr True
 \<and> compare_versions VersionOrder_eq ''0.4.1.rc'' ''0.4.1.RC'' = Inr True
 \<and> compare_versions VersionOrder_lt ''0.4.1.RC'' ''0.4.1'' = Inr True
 \<and> compare_versions VersionOrder_lt ''0.4.1'' ''0.5a1'' = Inr True
 \<and> compare_versions VersionOrder_lt ''0.5a1'' ''0.5b3'' = Inr True
 \<and> compare_versions VersionOrder_lt ''0.5b3'' ''0.5C1'' = Inr True
 \<and> compare_versions VersionOrder_eq ''0.5C1'' ''0.5c1'' = Inr True
 \<and> compare_versions VersionOrder_lt ''0.5c1'' ''0.5'' = Inr True
 \<and> compare_versions VersionOrder_lt ''0.5'' ''1.1dev1'' = Inr True
 \<and> compare_versions VersionOrder_lt ''1.1dev1'' ''1.1a1'' = Inr True
 \<and> compare_versions VersionOrder_lt ''1.1a1'' ''1.1.0dev1'' = Inr True
 \<and> compare_versions VersionOrder_eq ''1.1.0dev1'' ''1.1.dev1'' = Inr True
 \<and> compare_versions VersionOrder_lt ''1.1.dev1'' ''1.1.a1'' = Inr True
 \<and> compare_versions VersionOrder_lt ''1.1.a1'' ''1.1.0rc1'' = Inr True
 \<and> compare_versions VersionOrder_lt ''1.1.0rc1'' ''1.1.0'' = Inr True
 \<and> compare_versions VersionOrder_eq ''1.1.0'' ''1.1'' = Inr True
 \<and> compare_versions VersionOrder_lt ''1.1'' ''1.1.0post1'' = Inr True
 \<and> compare_versions VersionOrder_eq ''1.1.0post1'' ''1.1.post1'' = Inr True
 \<and> compare_versions VersionOrder_lt ''1.1.post1'' ''1.1post1'' = Inr True"
  by (intro conjI) (simp_all add: VersionOrder_eval)

section \<open>The cache is transparent on valid strings\<close>

text \<open>
  Starting from the empty dictionary, every entry is the object the constructor built for
  its key. On a string that parses, the cached constructor therefore returns the parsed
  version, whatever was constructed before; the theorems below are about the parsed
  versions of strings that parse.
\<close>

lemma cache_inv_empty: "cache_inv Map.empty"
  by (simp add: cache_inv_def)

lemma cache_inv_step: "cache_inv cache \<Longrightarrow> cache_inv (snd (VersionOrder_cached cache raw))"
  by (auto simp: cache_inv_def VersionOrder_cached_def split: option.splits sum.splits)

lemma cache_transparent:
  "cache_inv cache \<Longrightarrow> VersionOrder_new raw = Inr v \<Longrightarrow>
   fst (VersionOrder_cached cache raw) = Inr (Built v)"
  by (auto simp: cache_inv_def VersionOrder_cached_def split: option.splits sum.splits)

section \<open>The order on parsed versions\<close>

lemma cmp3_lt_body: "cmp3 lt_body"
  unfolding cmp3_def lt_body_def is_str_def
  by (auto split: token.splits)

lemma padded_step:
  assumes "f (d, d) = None"
  shows "padded f d (xs, ys) =
           (case f (hd_or d xs, hd_or d ys) of
              Some b \<Rightarrow> Some b
            | None \<Rightarrow> padded f d (tl xs, tl ys))"
  using assms by (cases xs; cases ys) (auto simp: padded_def hd_or_def split: option.splits)

lemma cmp3_refl: "cmp3 f \<Longrightarrow> f (x, x) = None"
  unfolding cmp3_def by blast

lemma cmp3_flip: "cmp3 f \<Longrightarrow> f (y, x) = map_option Not (f (x, y))"
  unfolding cmp3_def by blast

lemma cmp3_cong: "cmp3 f \<Longrightarrow> f (x, y) = None \<Longrightarrow> f (x, z) = f (y, z)"
  unfolding cmp3_def by blast

lemma cmp3_trans:
  "cmp3 f \<Longrightarrow> f (x, y) = Some True \<Longrightarrow> f (y, z) = Some True \<Longrightarrow> f (x, z) = Some True"
  unfolding cmp3_def by blast

lemma tl_smaller:
  "\<not> (xs = [] \<and> ys = [] \<and> zs = []) \<Longrightarrow>
   length (tl xs) + length (tl ys) + length (tl zs) < length xs + length ys + length zs"
  by (cases xs; cases ys; cases zs) auto

lemma padded_refl: "cmp3 f \<Longrightarrow> padded f d (xs, xs) = None"
  by (induction xs) (auto simp: padded_def cmp3_refl)

lemma padded_flip:
  assumes "cmp3 f"
  shows "padded f d (ys, xs) = map_option Not (padded f d (xs, ys))"
proof -
  have fl: "\<And>x y. f (y, x) = map_option Not (f (x, y))" using assms by (rule cmp3_flip)
  show ?thesis unfolding padded_def prod.case
  proof (induction d xs ys rule: zip_longest.induct)
    case (1 fill) show ?case by simp
  next
    case (2 fill x xs) then show ?case by (simp add: fl [of fill x] split: option.splits)
  next
    case (3 fill y ys) then show ?case by (simp add: fl [of y fill] split: option.splits)
  next
    case (4 fill x xs y ys) then show ?case by (simp add: fl [of y x] split: option.splits)
  qed
qed

lemma padded_cong:
  assumes c: "cmp3 f"
  shows "padded f d (xs, ys) = None \<Longrightarrow> padded f d (xs, zs) = padded f d (ys, zs)"
proof (induction "length xs + length ys + length zs" arbitrary: xs ys zs rule: less_induct)
  case less
  have dd: "f (d, d) = None" using c by (rule cmp3_refl)
  show ?case
  proof (cases "xs = [] \<and> ys = [] \<and> zs = []")
    case True then show ?thesis by simp
  next
    case False
    from less.prems have h: "f (hd_or d xs, hd_or d ys) = None"
      and t: "padded f d (tl xs, tl ys) = None"
      by (auto simp: padded_step [of f d xs ys, OF dd] split: option.splits)
    have ih: "padded f d (tl xs, tl zs) = padded f d (tl ys, tl zs)"
      using less.hyps [OF tl_smaller [OF False] t] .
    have "f (hd_or d xs, hd_or d zs) = f (hd_or d ys, hd_or d zs)"
      using c h by (rule cmp3_cong)
    then show ?thesis
      by (simp add: padded_step [of f d xs zs, OF dd] padded_step [of f d ys zs, OF dd] ih
            split: option.splits)
  qed
qed

lemma padded_trans:
  assumes c: "cmp3 f"
  shows "padded f d (xs, ys) = Some True \<Longrightarrow> padded f d (ys, zs) = Some True
         \<Longrightarrow> padded f d (xs, zs) = Some True"
proof (induction "length xs + length ys + length zs" arbitrary: xs ys zs rule: less_induct)
  case less
  have dd: "f (d, d) = None" using c by (rule cmp3_refl)
  have cg: "\<And>x y z. f (x, y) = None \<Longrightarrow> f (x, z) = f (y, z)" using c by (rule cmp3_cong)
  have fl: "\<And>x y. f (y, x) = map_option Not (f (x, y))" using c by (rule cmp3_flip)
  have tr: "\<And>x y z. f (x, y) = Some True \<Longrightarrow> f (y, z) = Some True \<Longrightarrow> f (x, z) = Some True"
    using c by (rule cmp3_trans)
  show ?case
  proof (cases "xs = [] \<and> ys = [] \<and> zs = []")
    case True with less.prems show ?thesis by (simp add: padded_def)
  next
    case False
    note sm = tl_smaller [OF False]
    let ?x = "hd_or d xs" and ?y = "hd_or d ys" and ?z = "hd_or d zs"
    from less.prems(1) have xy: "f (?x, ?y) = Some True \<or> (f (?x, ?y) = None \<and> padded f d (tl xs, tl ys) = Some True)"
      by (auto simp: padded_step [of f d xs ys, OF dd] split: option.splits)
    from less.prems(2) have yz: "f (?y, ?z) = Some True \<or> (f (?y, ?z) = None \<and> padded f d (tl ys, tl zs) = Some True)"
      by (auto simp: padded_step [of f d ys zs, OF dd] split: option.splits)
    have step: "padded f d (xs, zs) =
        (case f (?x, ?z) of Some b \<Rightarrow> Some b | None \<Rightarrow> padded f d (tl xs, tl zs))"
      by (rule padded_step [of f d xs zs, OF dd])
    from xy show ?thesis
    proof (elim disjE conjE)
      assume a: "f (?x, ?y) = Some True"
      from yz show ?thesis
      proof (elim disjE conjE)
        assume "f (?y, ?z) = Some True"
        with a have "f (?x, ?z) = Some True" by (rule tr)
        then show ?thesis by (simp add: step)
      next
        assume b: "f (?y, ?z) = None"
        then have "f (?z, ?y) = None" by (simp add: fl [of ?z ?y])
        then have "f (?z, ?x) = f (?y, ?x)" by (rule cg)
        also have "\<dots> = Some False" using a by (simp add: fl [of ?y ?x])
        finally have "f (?x, ?z) = Some True" by (simp add: fl [of ?x ?z])
        then show ?thesis by (simp add: step)
      qed
    next
      assume a: "f (?x, ?y) = None" and ta: "padded f d (tl xs, tl ys) = Some True"
      from a have e: "f (?x, ?z) = f (?y, ?z)" by (rule cg)
      from yz show ?thesis
      proof (elim disjE conjE)
        assume "f (?y, ?z) = Some True"
        with e show ?thesis by (simp add: step)
      next
        assume "f (?y, ?z) = None" and tb: "padded f d (tl ys, tl zs) = Some True"
        with e have "f (?x, ?z) = None" by simp
        moreover have "padded f d (tl xs, tl zs) = Some True"
          using less.hyps [OF sm ta tb] .
        ultimately show ?thesis by (simp add: step)
      qed
    qed
  qed
qed

lemma cmp3_padded:
  assumes "cmp3 f"
  shows "cmp3 (padded f d)"
  unfolding cmp3_def [of "padded f d"]
proof (intro conjI allI impI)
  fix x y z :: "'a list"
  show "padded f d (x, x) = None" using assms by (rule padded_refl)
  show "padded f d (y, x) = map_option Not (padded f d (x, y))" using assms by (rule padded_flip)
  show "padded f d (x, z) = padded f d (y, z)" if "padded f d (x, y) = None"
    using assms that by (rule padded_cong)
  show "padded f d (x, z) = Some True"
    if "padded f d (x, y) = Some True" "padded f d (y, z) = Some True"
    using assms that by (rule padded_trans)
qed

lemma lt_components_padded: "lt_components fill = padded lt_body fill"
  by (rule ext) (simp add: lt_components_def padded_def)

lemma lt_lists_padded: "lt_lists fill = padded (lt_components fill) []"
  by (rule ext) (simp add: lt_lists_def padded_def)

lemma cmp3_lt_lists: "cmp3 (lt_lists fill)"
  unfolding lt_lists_padded lt_components_padded
  by (intro cmp3_padded cmp3_lt_body)

lemma VersionOrder_lt_cmp: "VersionOrder_lt a b \<longleftrightarrow> vo_cmp (fillvalue a) (a, b) = Some True"
  by (auto simp: VersionOrder_lt_def vo_cmp_def split: option.splits)

lemma first_decided_agree:
  assumes "\<And>p. (g p = None \<longleftrightarrow> h p = None) \<and> g p \<noteq> Some True"
  shows "(first_decided g ps = None \<longleftrightarrow> first_decided h ps = None)
         \<and> first_decided g ps \<noteq> Some True"
proof (induction ps)
  case Nil
  show ?case by simp
next
  case (Cons p ps)
  from assms [of p] Cons show ?case
    by (cases "g p"; cases "h p") auto
qed

lemma eq_body_agree: "(eq_body p = None \<longleftrightarrow> lt_body p = None) \<and> eq_body p \<noteq> Some True"
  by (cases p) (auto simp: eq_body_def lt_body_def)

lemma VersionOrder_eq_lists_cmp:
  "VersionOrder_eq_lists fill t1 t2 \<longleftrightarrow> lt_lists fill (t1, t2) = None"
proof -
  let ?g = "\<lambda>(v1, v2). first_decided eq_body (zip_longest fill v1 v2)"
  have inner: "(?g p = None \<longleftrightarrow> lt_components fill p = None) \<and> ?g p \<noteq> Some True" for p
    using first_decided_agree [of eq_body lt_body, OF eq_body_agree]
    by (cases p) (simp add: lt_components_def)
  have outer: "(first_decided ?g ps = None \<longleftrightarrow> first_decided (lt_components fill) ps = None)
               \<and> first_decided ?g ps \<noteq> Some True" for ps
    by (rule first_decided_agree) (rule inner)
  from outer [of "zip_longest [] t1 t2"] show ?thesis
    by (cases "first_decided ?g (zip_longest [] t1 t2)")
       (auto simp: VersionOrder_eq_lists_def lt_lists_def)
qed

lemma VersionOrder_eq_cmp: "VersionOrder_eq a b \<longleftrightarrow> vo_cmp (fillvalue a) (a, b) = None"
  by (auto simp: VersionOrder_eq_def VersionOrder_eq_lists_cmp vo_cmp_def split: option.splits)

lemma cmp3_vo_cmp: "cmp3 (vo_cmp fill)"
proof -
  let ?f = "lt_lists fill"
  note c = cmp3_lt_lists [of fill]
  show ?thesis
    unfolding cmp3_def [of "vo_cmp fill"]
  proof (intro conjI allI impI)
    fix x y z :: VersionOrder
    show "vo_cmp fill (x, x) = None"
      by (simp add: vo_cmp_def cmp3_refl [OF c])
    show "vo_cmp fill (y, x) = map_option Not (vo_cmp fill (x, y))"
      by (simp add: vo_cmp_def cmp3_flip [OF c, of "version y" "version x"]
            cmp3_flip [OF c, of "local_part y" "local_part x"] split: option.splits)
    show "vo_cmp fill (x, z) = vo_cmp fill (y, z)" if "vo_cmp fill (x, y) = None"
    proof -
      from that have "?f (version x, version y) = None" "?f (local_part x, local_part y) = None"
        by (auto simp: vo_cmp_def split: option.splits)
      then have "?f (version x, version z) = ?f (version y, version z)"
        "?f (local_part x, local_part z) = ?f (local_part y, local_part z)"
        by (auto intro: cmp3_cong [OF c])
      then show ?thesis by (simp add: vo_cmp_def split: option.splits)
    qed
    show "vo_cmp fill (x, z) = Some True"
      if xy: "vo_cmp fill (x, y) = Some True" and yz: "vo_cmp fill (y, z) = Some True"
    proof -
      from xy have xy': "?f (version x, version y) = Some True
          \<or> (?f (version x, version y) = None \<and> ?f (local_part x, local_part y) = Some True)"
        by (auto simp: vo_cmp_def split: option.splits)
      from yz have yz': "?f (version y, version z) = Some True
          \<or> (?f (version y, version z) = None \<and> ?f (local_part y, local_part z) = Some True)"
        by (auto simp: vo_cmp_def split: option.splits)
      from xy' show ?thesis
      proof (elim disjE conjE)
        assume a: "?f (version x, version y) = Some True"
        from yz' show ?thesis
        proof (elim disjE conjE)
          assume "?f (version y, version z) = Some True"
          with a have "?f (version x, version z) = Some True" by (rule cmp3_trans [OF c])
          then show ?thesis by (simp add: vo_cmp_def)
        next
          assume "?f (version y, version z) = None"
          then have "?f (version z, version y) = None"
            by (simp add: cmp3_flip [OF c, of "version z" "version y"])
          then have "?f (version z, version x) = ?f (version y, version x)"
            by (rule cmp3_cong [OF c])
          also have "\<dots> = Some False"
            using a by (simp add: cmp3_flip [OF c, of "version y" "version x"])
          finally have "?f (version x, version z) = Some True"
            by (simp add: cmp3_flip [OF c, of "version x" "version z"])
          then show ?thesis by (simp add: vo_cmp_def)
        qed
      next
        assume a: "?f (version x, version y) = None"
          and la: "?f (local_part x, local_part y) = Some True"
        from a have e: "?f (version x, version z) = ?f (version y, version z)"
          by (rule cmp3_cong [OF c])
        from yz' show ?thesis
        proof (elim disjE conjE)
          assume "?f (version y, version z) = Some True"
          with e show ?thesis by (simp add: vo_cmp_def)
        next
          assume "?f (version y, version z) = None"
            and lb: "?f (local_part y, local_part z) = Some True"
          with e have "?f (version x, version z) = None" by simp
          moreover from la lb have "?f (local_part x, local_part z) = Some True"
            by (rule cmp3_trans [OF c])
          ultimately show ?thesis by (simp add: vo_cmp_def)
        qed
      qed
    qed
  qed
qed

lemma VersionOrder_new_fillvalue: "VersionOrder_new s = Inr v \<Longrightarrow> fillvalue v = TInt 0"
  by (auto simp: VersionOrder_new_def VersionOrder_split_def Let_def
           split: if_splits sum.splits)

text \<open>
  C1. For version strings \<open>a\<close>, \<open>b\<close>, \<open>c\<close> that parse, exactly one of \<^verbatim>\<open>a < b\<close>,
  \<^verbatim>\<open>a == b\<close>, \<^verbatim>\<open>a > b\<close> holds, and \<^verbatim>\<open>a < b\<close> with \<^verbatim>\<open>b < c\<close> gives \<^verbatim>\<open>a < c\<close>.
\<close>

theorem VersionOrder_total_order:
  assumes "VersionOrder_new a = Inr va" and "VersionOrder_new b = Inr vb"
    and "VersionOrder_new c = Inr vc"
  shows "(VersionOrder_lt va vb \<and> \<not> VersionOrder_eq va vb \<and> \<not> VersionOrder_gt va vb
          \<or> \<not> VersionOrder_lt va vb \<and> VersionOrder_eq va vb \<and> \<not> VersionOrder_gt va vb
          \<or> \<not> VersionOrder_lt va vb \<and> \<not> VersionOrder_eq va vb \<and> VersionOrder_gt va vb)
       \<and> (VersionOrder_lt va vb \<longrightarrow> VersionOrder_lt vb vc \<longrightarrow> VersionOrder_lt va vc)"
proof -
  note c = cmp3_vo_cmp [of "TInt 0"]
  have fa: "fillvalue va = TInt 0" and fb: "fillvalue vb = TInt 0" and fc: "fillvalue vc = TInt 0"
    using assms by (auto dest: VersionOrder_new_fillvalue)
  have gt: "VersionOrder_gt va vb \<longleftrightarrow> vo_cmp (TInt 0) (va, vb) = Some False"
    by (cases "vo_cmp (TInt 0) (va, vb)")
       (auto simp: VersionOrder_gt_def VersionOrder_lt_cmp fb cmp3_flip [OF c, of vb va])
  have tri: "VersionOrder_lt va vb \<and> \<not> VersionOrder_eq va vb \<and> \<not> VersionOrder_gt va vb
          \<or> \<not> VersionOrder_lt va vb \<and> VersionOrder_eq va vb \<and> \<not> VersionOrder_gt va vb
          \<or> \<not> VersionOrder_lt va vb \<and> \<not> VersionOrder_eq va vb \<and> VersionOrder_gt va vb"
    unfolding gt VersionOrder_lt_cmp VersionOrder_eq_cmp fa
    by (cases "vo_cmp (TInt 0) (va, vb)") auto
  have tr: "VersionOrder_lt va vc" if "VersionOrder_lt va vb" "VersionOrder_lt vb vc"
    using that cmp3_trans [OF c, of va vb vc] by (simp add: VersionOrder_lt_cmp fa fb)
  from tri tr show ?thesis by blast
qed

theorem VersionOrder_total_order_witness:
  "compare_versions VersionOrder_lt ''1.0'' ''1.1a'' = Inr True
 \<and> compare_versions VersionOrder_lt ''1.1a'' ''1!0.1'' = Inr True
 \<and> compare_versions VersionOrder_lt ''1.0'' ''1!0.1'' = Inr True
 \<and> compare_versions VersionOrder_eq ''1.0'' ''1.1a'' = Inr False
 \<and> compare_versions VersionOrder_gt ''1.0'' ''1.1a'' = Inr False"
proof -
  obtain va where a: "VersionOrder_new ''1.0'' = Inr va" by (simp add: VersionOrder_eval)
  obtain vb where b: "VersionOrder_new ''1.1a'' = Inr vb" by (simp add: VersionOrder_eval)
  obtain vc where c: "VersionOrder_new ''1!0.1'' = Inr vc" by (simp add: VersionOrder_eval)
  have ab: "VersionOrder_lt va vb" using a b by (auto simp: VersionOrder_eval)
  have bc: "VersionOrder_lt vb vc" using b c by (auto simp: VersionOrder_eval)
  from VersionOrder_total_order [OF a b c] ab bc
  have "VersionOrder_lt va vc" "\<not> VersionOrder_eq va vb" "\<not> VersionOrder_gt va vb" by blast+
  with ab bc a b c show ?thesis by (simp add: compare_versions_def)
qed

section \<open>Canonicalization\<close>

text \<open>
  The normalised string of a parsed version consists of characters of the version class
  only, so stripping and lower-casing leave it unchanged and it passes the check again.
\<close>

lemma version_char_not_space: "version_char c \<Longrightarrow> \<not> is_space c"
  by (auto simp: version_char_def is_space_def)

lemma version_char_not_upper: "version_char c \<Longrightarrow> c \<notin> set ''ABCDEFGHIJKLMNOPQRSTUVWXYZ''"
  by (auto simp: version_char_def)

lemma version_char_lower: "version_char c \<Longrightarrow> lower_char c = c"
proof -
  assume "version_char c"
  then have nu: "c \<notin> set ''ABCDEFGHIJKLMNOPQRSTUVWXYZ''" by (rule version_char_not_upper)
  have len: "length ''ABCDEFGHIJKLMNOPQRSTUVWXYZ'' = length ''abcdefghijklmnopqrstuvwxyz''"
    by simp
  from nu map_of_zip_is_None [OF len, of c]
  have "map_of (zip ''ABCDEFGHIJKLMNOPQRSTUVWXYZ'' ''abcdefghijklmnopqrstuvwxyz'') c = None"
    by blast
  then show ?thesis by (simp only: lower_char_def option.case)
qed

lemma lower_char_newline: "lower_char c = CHR 0x0A \<Longrightarrow> c = CHR 0x0A"
proof (cases "map_of (zip ''ABCDEFGHIJKLMNOPQRSTUVWXYZ'' ''abcdefghijklmnopqrstuvwxyz'') c")
  case None
  assume "lower_char c = CHR 0x0A"
  with None show ?thesis by (simp add: lower_char_def)
next
  case (Some d)
  assume l: "lower_char c = CHR 0x0A"
  from Some have "(c, d) \<in> set (zip ''ABCDEFGHIJKLMNOPQRSTUVWXYZ'' ''abcdefghijklmnopqrstuvwxyz'')"
    by (rule map_of_SomeD)
  then have "d \<in> set ''abcdefghijklmnopqrstuvwxyz''" by (rule set_zip_rightD)
  moreover from l Some have "d = CHR 0x0A" by (simp add: lower_char_def)
  ultimately show ?thesis by simp
qed

lemma replace_char_single: "replace_char c [r] s = map (\<lambda>d. if d = c then r else d) s"
  by (induction s) (simp_all add: replace_char_def)

lemma rstrip_last: "rstrip s \<noteq> [] \<Longrightarrow> \<not> is_space (last (rstrip s))"
proof -
  assume ne: "rstrip s \<noteq> []"
  then have "dropWhile is_space (rev s) \<noteq> []" by (simp add: rstrip_def)
  then have "\<not> is_space (hd (dropWhile is_space (rev s)))" by (rule hd_dropWhile)
  moreover have "last (rstrip s) = hd (dropWhile is_space (rev s))"
    using ne by (simp add: rstrip_def last_rev)
  ultimately show ?thesis by simp
qed

lemma strip_version_chars:
  assumes "list_all version_char s"
  shows "lower (rstrip (strip s)) = s"
proof (cases "s = []")
  case True
  then show ?thesis by (simp add: string_eval)
next
  case False
  from assms have ns: "\<forall>c \<in> set s. \<not> is_space c"
    by (auto simp: list_all_iff dest: version_char_not_space)
  from False ns have "\<not> is_space (hd s)" "\<not> is_space (last s)" by auto
  then have l: "dropWhile is_space s = s" and r: "dropWhile is_space (rev s) = rev s"
    using False by (simp_all add: dropWhile_eq_self_iff hd_rev)
  have "rstrip (strip s) = s" by (simp add: strip_def lstrip_def rstrip_def l r)
  moreover have "lower s = s"
    using assms unfolding lower_def by (induction s) (auto simp: version_char_lower)
  ultimately show ?thesis by simp
qed

lemma version_check_re_chars:
  "version_check_re s \<longleftrightarrow> s \<noteq> [] \<and> list_all version_char s" if "s = [] \<or> last s \<noteq> CHR 0x0A"
  using that by (cases "s = []") (simp_all add: version_check_re_def dollar_def Let_def)

lemma normalised_last:
  assumes "w = lower (rstrip (strip raw))" and "w \<noteq> []"
  shows "last w \<noteq> CHR 0x0A"
proof
  assume nl: "last w = CHR 0x0A"
  let ?r = "rstrip (strip raw)"
  from assms have ne: "?r \<noteq> []" by (auto simp: lower_def)
  then have "last w = lower_char (last ?r)" using assms by (simp add: lower_def last_map)
  with nl have "last ?r = CHR 0x0A" by (simp add: lower_char_newline)
  moreover from ne have "\<not> is_space (last ?r)" by (rule rstrip_last)
  ultimately show False by (simp add: is_space_def)
qed

lemma VersionOrder_new_norm:
  assumes "VersionOrder_new raw = Inr v"
  shows "list_all version_char (norm_version v) \<and> norm_version v \<noteq> []
         \<and> VersionOrder_split (norm_version v) = Inr v"
proof -
  define w where "w = lower (rstrip (strip raw))"
  define dash where "dash = (\<not> version_check_re w \<and> CHR ''-'' \<in> set w \<and> CHR ''_'' \<notin> set w)"
  define final where "final = (if dash then replace_char (CHR ''-'') ''_'' w else w)"
  have unf: "VersionOrder_new raw =
      (if w = [] then Inl (ValueError ''Empty version string.'')
       else if \<not> version_check_re final then Inl (ValueError ''invalid character(s).'')
       else VersionOrder_split final)"
    unfolding VersionOrder_new_def Let_def w_def [symmetric]
    unfolding dash_def [symmetric]
    unfolding final_def
    by (cases dash) (auto simp: dash_def)
  from assms have w: "w \<noteq> []" unfolding unf by (cases "w = []") simp_all
  from assms w have chk: "version_check_re final"
    unfolding unf by (cases "version_check_re final") simp_all
  from assms w chk have sp: "VersionOrder_split final = Inr v"
    unfolding unf by simp
  from w have lw: "last w \<noteq> CHR 0x0A" by (rule normalised_last [OF w_def])
  from w have fne: "final \<noteq> []" by (simp add: final_def replace_char_single)
  have "last final \<noteq> CHR 0x0A"
    using w lw by (simp add: final_def replace_char_single last_map)
  with chk fne have al: "list_all version_char final" by (simp add: version_check_re_chars)
  from sp have "norm_version v = final"
    by (auto simp: VersionOrder_split_def Let_def split: sum.splits)
  with al fne sp show ?thesis by simp
qed

text \<open>
  C8. For every version string \<open>s\<close> that parses, parsing the canonical string of the parsed
  version succeeds, and its result equals the parsed version under \<^verbatim>\<open>__eq__\<close>.
\<close>

theorem canonical_idempotent:
  assumes "VersionOrder_new s = Inr v"
  shows "\<exists>v'. VersionOrder_new (VersionOrder_str v) = Inr v' \<and> VersionOrder_eq v' v"
proof -
  let ?n = "norm_version v"
  from VersionOrder_new_norm [OF assms]
  have al: "list_all version_char ?n" and ne: "?n \<noteq> []" and sp: "VersionOrder_split ?n = Inr v"
    by simp_all
  from al have st: "lower (rstrip (strip ?n)) = ?n" by (rule strip_version_chars)
  from al ne have "version_char (last ?n)" by (simp add: list_all_iff)
  then have "\<not> is_space (last ?n)" by (rule version_char_not_space)
  then have "last ?n \<noteq> CHR 0x0A" by (auto simp: is_space_def)
  with al ne have chk: "version_check_re ?n" by (simp add: version_check_re_chars)
  have "VersionOrder_new ?n = Inr v"
    by (simp add: VersionOrder_new_def Let_def st ne chk sp)
  moreover have "VersionOrder_eq v v"
    by (simp add: VersionOrder_eq_cmp cmp3_refl [OF cmp3_vo_cmp])
  ultimately show ?thesis by (simp add: VersionOrder_str_def)
qed

theorem canonical_idempotent_witness:
  "compare_versions VersionOrder_eq (VersionOrder_str
      \<lparr>fillvalue = TInt 0, norm_version = ''1.1_dev1'',
        version = [[TInt 0], [TInt 1], [TInt 1], [TInt 0, TStr ''DEV'', TInt 1]],
        local_part = []\<rparr>) '' 1.1-DEV1'' = Inr True"
proof -
  let ?v = "\<lparr>fillvalue = TInt 0, norm_version = ''1.1_dev1'',
        version = [[TInt 0], [TInt 1], [TInt 1], [TInt 0, TStr ''DEV'', TInt 1]],
        local_part = []\<rparr>"
  have p: "VersionOrder_new '' 1.1-DEV1'' = Inr ?v" by (simp add: VersionOrder_eval)
  from canonical_idempotent [OF p] p show ?thesis
    by (auto simp: compare_versions_def)
qed

section \<open>Epoch dominance\<close>

lemma findall_digits:
  assumes "isdigit e"
  shows "version_split_re_findall e = [e]"
proof -
  from assms obtain c cs where e: "e = c # cs" and d: "is_digit c" "list_all is_digit cs"
    by (cases e) (auto simp: isdigit_def)
  from d have all: "\<forall>x \<in> set cs. cclass_of x = cclass_of c"
    by (auto simp: cclass_of_def list_all_iff)
  then have tw: "takeWhile (\<lambda>x. cclass_of x = cclass_of c) cs = cs"
    and dw: "dropWhile (\<lambda>x. cclass_of x = cclass_of c) cs = []"
    by (simp_all add: takeWhile_eq_all_conv)
  show ?thesis unfolding e by (simp add: tw dw)
qed

lemma parse_component_digits:
  assumes "isdigit e"
  shows "parse_component fill e = Inr [TInt (int_of_str e)]"
proof -
  from assms have "is_digit (hd e)" by (cases e) (auto simp: isdigit_def)
  with assms show ?thesis
    by (simp add: parse_component_def findall_digits convert_run_def Let_def)
qed

lemma find_epoch_digits:
  assumes "find_epoch pieces = Inr ep"
  shows "\<exists>e. ep = [e] \<and> isdigit e
           \<and> int_of_str e = (if length pieces = 1 then 0 else int_of_str (pieces ! 0))"
proof (cases "length pieces = 1")
  case True
  with assms have "ep = [''0'']" by (simp add: find_epoch_def)
  moreover have "isdigit ''0''" "int_of_str ''0'' = 0" by (simp_all add: string_eval)
  ultimately show ?thesis using True by simp
next
  case False
  with assms show ?thesis by (auto simp: find_epoch_def split: if_splits)
qed

lemma VersionOrder_split_epoch:
  assumes "VersionOrder_split norm = Inr v"
  shows "epoch v = Some (epoch_text norm)"
proof -
  let ?pieces = "split_on (CHR ''!'') norm"
  from assms obtain ep xs ver' where ep: "find_epoch ?pieces = Inr ep"
    and pc: "parse_components (TInt 0) (ep @ xs) = Inr ver'" and v: "version v = ver'"
    by (auto simp: VersionOrder_split_def Let_def split: sum.splits)
  from find_epoch_digits [OF ep] obtain e where e: "ep = [e]" "isdigit e"
    and i: "int_of_str e = (if length ?pieces = 1 then 0 else int_of_str (?pieces ! 0))"
    by blast
  from pc obtain rest where "ver' = [TInt (int_of_str e)] # rest"
    unfolding e by (auto simp: parse_component_digits [OF e(2)] split: sum.splits)
  then show ?thesis by (simp add: epoch_def v i epoch_text_def Let_def)
qed

lemma VersionOrder_new_epoch:
  assumes "VersionOrder_new a = Inr va"
  shows "epoch va = Some (epoch_text (norm_version va))"
proof -
  from VersionOrder_new_norm [OF assms] have "VersionOrder_split (norm_version va) = Inr va"
    by simp
  then show ?thesis by (rule VersionOrder_split_epoch)
qed

lemma epoch_lt:
  assumes "epoch va = Some n" and "epoch vb = Some m" and "n < m"
  shows "VersionOrder_lt va vb"
proof -
  from assms obtain ra rb where a: "version va = [TInt n] # ra" and b: "version vb = [TInt m] # rb"
    by (auto simp: epoch_def split: list.splits token.splits)
  from \<open>n < m\<close> show ?thesis
    by (simp add: VersionOrder_lt_def a b lt_lists_def lt_components_def lt_body_def is_str_def)
qed

text \<open>
  C3. The epoch of a parsed version is the integer its string states before \<^verbatim>\<open>!\<close> (0 without
  one). A version of epoch \<open>n + 1\<close> is greater than every version of epoch \<open>n\<close>, whatever
  the other components; in particular \<^verbatim>\<open>1!0.4.1 > 3.1.1.6\<close> and \<^verbatim>\<open>2!0.4.1 > 1!0.4.1\<close>.
\<close>

theorem epoch_dominance:
  "(VersionOrder_new a = Inr va \<longrightarrow> epoch va = Some (epoch_text (norm_version va)))
 \<and> (VersionOrder_new a = Inr va \<longrightarrow> VersionOrder_new b = Inr vb \<longrightarrow>
      epoch va = Some n \<longrightarrow> epoch vb = Some (n + 1) \<longrightarrow> VersionOrder_gt vb va)
 \<and> compare_versions VersionOrder_gt ''1!0.4.1'' ''3.1.1.6'' = Inr True
 \<and> compare_versions VersionOrder_gt ''2!0.4.1'' ''1!0.4.1'' = Inr True"
proof (intro conjI impI)
  show "epoch va = Some (epoch_text (norm_version va))" if "VersionOrder_new a = Inr va"
    using that by (rule VersionOrder_new_epoch)
  show "VersionOrder_gt vb va" if "epoch va = Some n" "epoch vb = Some (n + 1)"
    using that by (simp add: VersionOrder_gt_def epoch_lt)
  show "compare_versions VersionOrder_gt ''1!0.4.1'' ''3.1.1.6'' = Inr True"
    by (simp add: VersionOrder_eval)
  show "compare_versions VersionOrder_gt ''2!0.4.1'' ''1!0.4.1'' = Inr True"
    by (simp add: VersionOrder_eval)
qed

theorem epoch_dominance_witness:
  "epoch \<lparr>fillvalue = TInt 0, norm_version = ''7!0.1'',
          version = [[TInt 7], [TInt 0], [TInt 1]], local_part = []\<rparr> = Some 7
 \<and> compare_versions VersionOrder_gt ''8!0.0.1a'' ''7!99.9post9'' = Inr True"
proof -
  let ?a = "\<lparr>fillvalue = TInt 0, norm_version = ''7!99.9post9'',
          version = [[TInt 7], [TInt 99], [TInt 9, TInf, TInt 9]], local_part = []\<rparr>"
  let ?b = "\<lparr>fillvalue = TInt 0, norm_version = ''8!0.0.1a'',
          version = [[TInt 8], [TInt 0], [TInt 0], [TInt 1, TStr ''a'']], local_part = []\<rparr>"
  have a: "VersionOrder_new ''7!99.9post9'' = Inr ?a" by (simp add: VersionOrder_eval)
  have b: "VersionOrder_new ''8!0.0.1a'' = Inr ?b" by (simp add: VersionOrder_eval)
  have ea: "epoch ?a = Some 7" and eb: "epoch ?b = Some (7 + 1)" by (simp_all add: epoch_def)
  from epoch_dominance [of "''7!99.9post9''" ?a "''8!0.0.1a''" ?b 7] a b ea eb
  have "VersionOrder_gt ?b ?a" by blast
  then show ?thesis using a b by (simp add: compare_versions_def epoch_def)
qed

section \<open>MatchSpec scenarios\<close>

text \<open>
  C4. The documented scenarios, for any regular expression module: \<^verbatim>\<open>numpy\<close> matches
  both candidates; \<^verbatim>\<open>numpy 1.7*\<close> matches version \<^verbatim>\<open>1.7.1\<close> and rejects \<^verbatim>\<open>1.8.0\<close>;
  \<^verbatim>\<open>numpy >=1.7,<2\<close> matches \<^verbatim>\<open>1.9\<close> and rejects \<^verbatim>\<open>2.0\<close> and \<^verbatim>\<open>1.6\<close>, whatever the
  build string; \<^verbatim>\<open>numpy 1.7 py27_0\<close> matches a candidate exactly when it is the triple
  \<^verbatim>\<open>("numpy", "1.7", "py27_0")\<close>.
\<close>

theorem MatchSpec_scenarios:
  "MatchSpec_matches re ''numpy''
     \<lparr>dist_name = ''numpy'', dist_version = ''1.0'', dist_build_string = ''py27_0''\<rparr> = Inr True
 \<and> MatchSpec_matches re ''numpy''
     \<lparr>dist_name = ''numpy'', dist_version = ''9.9'', dist_build_string = ''abi_1''\<rparr> = Inr True
 \<and> MatchSpec_matches re ''numpy 1.7*''
     \<lparr>dist_name = ''numpy'', dist_version = ''1.7.1'', dist_build_string = ''x''\<rparr> = Inr True
 \<and> MatchSpec_matches re ''numpy 1.7*''
     \<lparr>dist_name = ''numpy'', dist_version = ''1.8.0'', dist_build_string = ''x''\<rparr> = Inr False
 \<and> MatchSpec_matches re ''numpy >=1.7,<2''
     \<lparr>dist_name = ''numpy'', dist_version = ''1.9'', dist_build_string = b\<rparr> = Inr True
 \<and> MatchSpec_matches re ''numpy >=1.7,<2''
     \<lparr>dist_name = ''numpy'', dist_version = ''2.0'', dist_build_string = b\<rparr> = Inr False
 \<and> MatchSpec_matches re ''numpy >=1.7,<2''
     \<lparr>dist_name = ''numpy'', dist_version = ''1.6'', dist_build_string = b\<rparr> = Inr False
 \<and> MatchSpec_matches re ''numpy 1.7 py27_0''
     \<lparr>dist_name = n, dist_version = v, dist_build_string = b'\<rparr>
       = Inr (n = ''numpy'' \<and> v = ''1.7'' \<and> b' = ''py27_0'')"
  by (intro conjI) (simp_all add: MatchSpec_eval, auto)

text \<open>
  C5. On the general path the build token \<^verbatim>\<open>py2.7\<close> is compiled to the pattern
  \<^verbatim>\<open>^(?:py2.7)$\<close>, its dot not escaped (the version wildcard of lines 372-375 escapes it),
  and the candidate build string \<^verbatim>\<open>py2x7\<close> matches.
\<close>

theorem build_dot_unescaped:
  "map_sum id ms_build
     (MatchSpec_new re_fragment (From_str ''numpy 1.7* py2.7'') Ellipsis Ellipsis False)
     = Inr (Some (Build_re ''^(?:py2.7)$''))
 \<and> MatchSpec_matches re_fragment ''numpy 1.7* py2.7''
     \<lparr>dist_name = ''numpy'', dist_version = ''1.7.1'', dist_build_string = ''py2x7''\<rparr> = Inr True"
  by (intro conjI) (simp_all add: MatchSpec_eval re_fragment_eval)

section \<open>The token count of a MatchSpec\<close>

lemma MatchSpec_new_From_str:
  "MatchSpec_new re (From_str s) tk ok nrm =
     (case parse_oparts s (kw_target tk) (kw_optional ok) of
        Inl e \<Rightarrow> Inl e
      | Inr (head_text, t, opt) \<Rightarrow> MatchSpec_compile re t opt nrm head_text)"
  by (simp add: MatchSpec_new_def)

text \<open>
  C6. A spec of four tokens, and the empty spec, fail with \<^verbatim>\<open>AssertionError\<close> (the
  \<^verbatim>\<open>assert\<close> of line 441), while a bad attribute list fails with the \<^verbatim>\<open>ValueError\<close> of
  malformed specs: the token count is not reported as a malformed spec.
\<close>

theorem token_count_counterexample:
  "MatchSpec_new re_fragment (From_str ''numpy 1.7 py27_0 extra'') Ellipsis Ellipsis False
     = Inl (AssertionError ''numpy 1.7 py27_0 extra'')
 \<and> MatchSpec_new re_fragment (From_str '''') Ellipsis Ellipsis False = Inl (AssertionError '''')
 \<and> MatchSpec_new re_fragment (From_str ''numpy (bogus)'') Ellipsis Ellipsis False
     = Inl (ValueError ''Invalid MatchSpec'')"
  by (intro conjI) (simp_all add: MatchSpec_eval)

text \<open>
  C6, as amended. When the attribute list (if any) parses and the remaining text, stripped,
  does not end in the package-archive extension, compiling the spec fails with an
  \<^verbatim>\<open>AssertionError\<close> whenever splitting that text on white space yields fewer than 1 or
  more than 3 tokens.
\<close>

theorem token_count_assertion:
  assumes "parse_oparts s (kw_target tk) (kw_optional ok) = Inr (head_text, t, opt)"
    and "\<not> endswith (strip head_text) CONDA_TARBALL_EXTENSION"
    and "length (py_split (strip head_text)) < 1 \<or> 3 < length (py_split (strip head_text))"
  shows "MatchSpec_new re (From_str s) tk ok nrm = Inl (AssertionError (strip head_text))"
  using assms
  by (auto simp: MatchSpec_new_From_str MatchSpec_compile_def MatchSpec_parts_def Let_def)

theorem token_count_assertion_witness:
  "MatchSpec_new re_fragment (From_str ''a b c d (optional)'') Ellipsis Ellipsis False
     = Inl (AssertionError ''a b c d'')"
proof -
  have p: "parse_oparts ''a b c d (optional)'' (kw_target Ellipsis) (kw_optional Ellipsis)
             = Inr (''a b c d '', None, True)"
    by (simp add: MatchSpec_eval)
  have e: "\<not> endswith (strip ''a b c d '') CONDA_TARBALL_EXTENSION"
    by (simp add: MatchSpec_eval)
  have st: "strip ''a b c d '' = ''a b c d''" by (simp add: string_eval)
  have n: "length (py_split (strip ''a b c d '')) < 1 \<or> 3 < length (py_split (strip ''a b c d ''))"
    by (simp add: MatchSpec_eval)
  from token_count_assertion [OF p e n, of re_fragment False] show ?thesis by (simp add: st)
qed

section \<open>The hash of a MatchSpec\<close>

lemma parse_oparts_head:
  "parse_oparts s t opt = Inr (h, t', opt') \<Longrightarrow> h = fst (partition (CHR ''('') s)"
  by (auto simp: parse_oparts_def split: prod.splits if_splits sum.splits)

lemma MatchSpec_compile_spec:
  assumes "MatchSpec_compile re t1 o1 nrm h1 = Inr m1"
    and "MatchSpec_compile re t2 o2 nrm h2 = Inr m2"
    and "strip h1 = strip h2"
  shows "ms_spec m1 = ms_spec m2"
  using assms unfolding MatchSpec_compile_def Let_def
  by (auto split: if_splits sum.splits prod.splits option.splits)

lemma MatchSpec_compile_attrs:
  assumes "MatchSpec_compile re t opt nrm h = Inr m"
  shows "ms_target m = t \<and> ms_optional m = opt"
  using assms unfolding MatchSpec_compile_def Let_def
  by (auto split: if_splits sum.splits prod.splits option.splits)

lemma MatchSpec_compile_plain:
  assumes "MatchSpec_compile re t opt False h = Inr m"
  shows "ms_spec m = strip h"
  using assms unfolding MatchSpec_compile_def Let_def
  by (auto split: if_splits sum.splits prod.splits option.splits)

lemma partition_head_no_sep: "c \<notin> set (fst (partition c s))"
  by (auto simp: partition_def dest: set_takeWhileD)

lemma set_strip: "set (strip s) \<subseteq> set s"
proof -
  have "set (rstrip x) \<subseteq> set x" for x
    using set_dropWhileD [of _ is_space "rev x"] by (auto simp: rstrip_def)
  moreover have "set (lstrip s) \<subseteq> set s"
    by (auto simp: lstrip_def dest: set_dropWhileD)
  ultimately show ?thesis unfolding strip_def by blast
qed

lemma py_split_set: "p \<in> set (py_split s) \<Longrightarrow> set p \<subseteq> set s"
proof (induction s rule: py_split.induct)
  case (1 s)
  define t where "t = dropWhile is_space s"
  have ts: "set t \<subseteq> set s" unfolding t_def by (auto dest: set_dropWhileD)
  from "1.prems" have ne: "t \<noteq> []"
    and p: "p = takeWhile (\<lambda>c. \<not> is_space c) t
            \<or> p \<in> set (py_split (dropWhile (\<lambda>c. \<not> is_space c) t))"
    unfolding py_split.simps [of s] t_def [symmetric] Let_def
    by (auto split: if_splits)
  from p show ?case
  proof
    assume "p = takeWhile (\<lambda>c. \<not> is_space c) t"
    then have "set p \<subseteq> set t" by (auto dest: set_takeWhileD)
    with ts show ?thesis by blast
  next
    assume "p \<in> set (py_split (dropWhile (\<lambda>c. \<not> is_space c) t))"
    then have "set p \<subseteq> set (dropWhile (\<lambda>c. \<not> is_space c) t)"
      using "1.IH" [OF t_def ne] by blast
    then have "set p \<subseteq> set t" by (auto dest: set_dropWhileD)
    with ts show ?thesis by blast
  qed
qed

lemma MatchSpec_parts_set: "p \<in> set (MatchSpec_parts s) \<Longrightarrow> set p \<subseteq> set s"
  by (auto simp: MatchSpec_parts_def dest: py_split_set split: if_splits)

lemma set_join: "set (join sep xs) \<subseteq> set sep \<union> (\<Union>x \<in> set xs. set x)"
  by (induction xs) auto

lemma MatchSpec_compile_no_paren:
  assumes c: "MatchSpec_compile re t opt nrm h = Inr m" and h: "CHR ''('' \<notin> set h"
  shows "CHR ''('' \<notin> set (ms_spec m)"
proof -
  let ?s = "strip h" and ?parts = "MatchSpec_parts (strip h)"
  from h set_strip [of h] have s: "CHR ''('' \<notin> set ?s" by blast
  have parts: "CHR ''('' \<notin> set p" if "p \<in> set ?parts" for p
    using MatchSpec_parts_set [OF that] s by blast
  let ?parts' = "?parts[1 := ?parts ! 1 @ ''*'']"
  have "ms_spec m = ?s \<or> (1 < length ?parts \<and> ms_spec m = join '' '' ?parts')"
    using c unfolding MatchSpec_compile_def Let_def
    by (auto split: if_splits sum.splits prod.splits option.splits)
  then show ?thesis
  proof
    assume "ms_spec m = ?s"
    with s show ?thesis by simp
  next
    assume a: "1 < length ?parts \<and> ms_spec m = join '' '' ?parts'"
    have "CHR ''('' \<notin> set p" if "p \<in> set ?parts'" for p
    proof -
      from that set_update_subset_insert [of ?parts 1 "?parts ! 1 @ ''*''"]
      have "p = ?parts ! 1 @ ''*'' \<or> p \<in> set ?parts" by blast
      moreover from a have "?parts ! 1 \<in> set ?parts" by simp
      ultimately show ?thesis using parts by auto
    qed
    with set_join [of "'' ''" ?parts'] a show ?thesis by auto
  qed
qed

lemma MatchSpec_str_eq:
  assumes "ms_spec m1 = ms_spec m2"
  shows "MatchSpec_str m1 = MatchSpec_str m2
         \<longleftrightarrow> ms_optional m1 = ms_optional m2 \<and> target_text m1 = target_text m2"
  using assms
  by (auto simp: MatchSpec_str_def target_text_def Let_def split: option.splits)

lemma MatchSpec_str_attrs:
  "ms_optional m \<or> target_text m \<noteq> [] \<Longrightarrow> MatchSpec_str m \<noteq> ms_spec m"
  by (auto simp: MatchSpec_str_def target_text_def Let_def split: option.splits)


text \<open>
  C9, as amended. \<^verbatim>\<open>__hash__\<close> hashes \<^verbatim>\<open>self.spec\<close>, never the canonical string. That
  string holds no parenthesis: it is built from the text before the attribute list (without
  \<^verbatim>\<open>normalize\<close>, that text stripped), while the attribute list and the keyword arguments
  go to \<^verbatim>\<open>target\<close> and \<^verbatim>\<open>optional\<close>. So two specs compiled from texts that agree before
  their attribute lists hash equally, whatever attributes they carry; their canonical strings
  are equal only when their \<^verbatim>\<open>optional\<close> flags and targets agree, and the canonical string
  of a spec with an attribute set differs from the string that is hashed.
\<close>

theorem hash_from_spec_text:
  assumes "MatchSpec_new re (From_str s1) k1 q1 nrm = Inr m1"
    and "MatchSpec_new re (From_str s2) k2 q2 nrm = Inr m2"
    and "strip (fst (partition (CHR ''('') s1)) = strip (fst (partition (CHR ''('') s2))"
  shows "MatchSpec_hash h m1 = h (ms_spec m1)
       \<and> CHR ''('' \<notin> set (ms_spec m1)
       \<and> (\<not> nrm \<longrightarrow> ms_spec m1 = strip (fst (partition (CHR ''('') s1)))
       \<and> parse_oparts s1 (kw_target k1) (kw_optional q1)
           = Inr (fst (partition (CHR ''('') s1), ms_target m1, ms_optional m1)
       \<and> MatchSpec_hash h m1 = MatchSpec_hash h m2
       \<and> (MatchSpec_str m1 = MatchSpec_str m2
            \<longleftrightarrow> ms_optional m1 = ms_optional m2 \<and> target_text m1 = target_text m2)
       \<and> (ms_optional m1 \<or> target_text m1 \<noteq> [] \<longrightarrow> MatchSpec_str m1 \<noteq> ms_spec m1)"
proof -
  let ?h1 = "fst (partition (CHR ''('') s1)"
  from assms(1) obtain h1 t1 o1 where p1: "parse_oparts s1 (kw_target k1) (kw_optional q1) = Inr (h1, t1, o1)"
    and c1: "MatchSpec_compile re t1 o1 nrm h1 = Inr m1"
    by (auto simp: MatchSpec_new_From_str split: sum.splits)
  from assms(2) obtain h2 t2 o2 where p2: "parse_oparts s2 (kw_target k2) (kw_optional q2) = Inr (h2, t2, o2)"
    and c2: "MatchSpec_compile re t2 o2 nrm h2 = Inr m2"
    by (auto simp: MatchSpec_new_From_str split: sum.splits)
  have h1: "h1 = ?h1" using p1 by (rule parse_oparts_head)
  have h2: "strip h1 = strip h2" using parse_oparts_head [OF p2] assms(3) h1 by simp
  have sp: "ms_spec m1 = ms_spec m2"
    using c1 c2 h2 by (rule MatchSpec_compile_spec)
  have at: "ms_target m1 = t1" "ms_optional m1 = o1"
    using MatchSpec_compile_attrs [OF c1] by simp_all
  have np: "CHR ''('' \<notin> set (ms_spec m1)"
    using c1 unfolding h1 by (rule MatchSpec_compile_no_paren) (rule partition_head_no_sep)
  have pl: "ms_spec m1 = strip ?h1" if "\<not> nrm"
    using c1 that unfolding h1 by (auto dest: MatchSpec_compile_plain)
  have po: "parse_oparts s1 (kw_target k1) (kw_optional q1) = Inr (?h1, ms_target m1, ms_optional m1)"
    using p1 by (simp add: h1 at)
  have hs: "MatchSpec_hash h m1 = h (ms_spec m1)" "MatchSpec_hash h m1 = MatchSpec_hash h m2"
    by (simp_all add: MatchSpec_hash_def sp)
  from hs np pl po MatchSpec_str_eq [OF sp] MatchSpec_str_attrs [of m1]
  show ?thesis by blast
qed

theorem hash_from_spec_text_witness:
  "map_sum id (MatchSpec_hash (\<lambda>s. s))
     (MatchSpec_new re_fragment (From_str ''numpy 1.7* py27* (optional,target=abc)'')
        Ellipsis Ellipsis False)
   = map_sum id (MatchSpec_hash (\<lambda>s. s))
     (MatchSpec_new re_fragment (From_str ''numpy 1.7* py27*'') Ellipsis Ellipsis False)
 \<and> map_sum id MatchSpec_str
     (MatchSpec_new re_fragment (From_str ''numpy 1.7* py27* (optional,target=abc)'')
        Ellipsis Ellipsis False)
   \<noteq> map_sum id MatchSpec_str
     (MatchSpec_new re_fragment (From_str ''numpy 1.7* py27*'') Ellipsis Ellipsis False)"
proof -
  let ?s1 = "''numpy 1.7* py27* (optional,target=abc)''" and ?s2 = "''numpy 1.7* py27*''"
  obtain m1 where a: "MatchSpec_new re_fragment (From_str ?s1) Ellipsis Ellipsis False = Inr m1"
    by (simp add: MatchSpec_eval re_fragment_eval)
  obtain m2 where b: "MatchSpec_new re_fragment (From_str ?s2) Ellipsis Ellipsis False = Inr m2"
    by (simp add: MatchSpec_eval re_fragment_eval)
  have e: "strip (fst (partition (CHR ''('') ?s1)) = strip (fst (partition (CHR ''('') ?s2))"
    by (simp add: partition_def string_eval)
  note th = hash_from_spec_text [OF a b e, of "\<lambda>s. s"]
  note th' = hash_from_spec_text [OF b a e [symmetric], of "\<lambda>s. s"]
  have "parse_oparts ?s1 (kw_target Ellipsis) (kw_optional Ellipsis)
          = Inr (''numpy 1.7* py27* '', Some ''abc'', True)"
    by (simp add: MatchSpec_eval)
  with th have o1: "ms_optional m1" by simp
  have "parse_oparts ?s2 (kw_target Ellipsis) (kw_optional Ellipsis)
          = Inr (''numpy 1.7* py27*'', None, False)"
    by (simp add: MatchSpec_eval)
  with th' have o2: "\<not> ms_optional m2" by simp
  from th o1 o2 have "MatchSpec_hash (\<lambda>s. s) m1 = MatchSpec_hash (\<lambda>s. s) m2"
    and "MatchSpec_str m1 \<noteq> MatchSpec_str m2" by blast+
  then show ?thesis by (simp add: a b)
qed

text \<open>
  C9. The canonical strings of \<^verbatim>\<open>numpy 1.7 (optional,target=abc)\<close> and \<^verbatim>\<open>numpy 1.7\<close> differ,
  and so do those of \<^verbatim>\<open>numpy 1.7\<close> compiled with and without the attributes as keyword
  arguments, but in each pair both specs hand the same string \<^verbatim>\<open>numpy 1.7\<close> to \<^verbatim>\<open>hash\<close>
  (taken here as the identity, the finest hash there is): they hash equally.
\<close>

theorem hash_ignores_attributes:
  "map_sum id MatchSpec_str
     (MatchSpec_new re_fragment (From_str ''numpy 1.7 (optional,target=abc)'') Ellipsis Ellipsis False)
     = Inr ''numpy 1.7 (optional,target=abc)''
 \<and> map_sum id MatchSpec_str
     (MatchSpec_new re_fragment (From_str ''numpy 1.7'') Ellipsis Ellipsis False)
     = Inr ''numpy 1.7''
 \<and> map_sum id (MatchSpec_hash (\<lambda>s. s))
     (MatchSpec_new re_fragment (From_str ''numpy 1.7 (optional,target=abc)'') Ellipsis Ellipsis False)
     = Inr ''numpy 1.7''
 \<and> map_sum id (MatchSpec_hash (\<lambda>s. s))
     (MatchSpec_new re_fragment (From_str ''numpy 1.7'') Ellipsis Ellipsis False)
     = Inr ''numpy 1.7''
 \<and> map_sum id MatchSpec_str
     (MatchSpec_new re_fragment (From_str ''numpy 1.7'') (Given (Some ''abc'')) (Given True) False)
     = Inr ''numpy 1.7 (optional,target=abc)''
 \<and> map_sum id (MatchSpec_hash (\<lambda>s. s))
     (MatchSpec_new re_fragment (From_str ''numpy 1.7'') (Given (Some ''abc'')) (Given True) False)
     = Inr ''numpy 1.7''"
  by (intro conjI) (simp_all add: MatchSpec_eval)

section \<open>The fast path\<close>

lemma MatchSpec_compile_three:
  assumes "MatchSpec_parts (strip h) = [n, v, b]"
  shows "MatchSpec_compile re t opt nrm h =
     (case VersionSpec_new re v of
        Inl e \<Rightarrow> Inl e
      | Inr vspec \<Rightarrow>
          if VersionSpec_is_exact vspec \<and> CHR ''*'' \<notin> set b then
            Inr \<lparr>ms_target = t, ms_optional = opt, ms_spec = strip h, ms_name = n,
                 ms_strictness = 3, ms_version = Some (Version_str v),
                 ms_build = Some (Build_str b), ms_match_fast = match_exact\<rparr>
          else
            (case (if VersionSpec_is_exact vspec \<and> nrm \<and> \<not> endswith v ''*''
                   then (case VersionSpec_new re (v @ ''*'') of
                           Inl e \<Rightarrow> Inl e
                         | Inr vspec' \<Rightarrow> Inr (vspec', join '' '' [n, v @ ''*'', b]))
                   else Inr (vspec, strip h)) of
               Inl e \<Rightarrow> Inl e
             | Inr (vspec, s') \<Rightarrow>
                 (case re (build_rx b) of
                    None \<Rightarrow> Inl ReError
                  | Some _ \<Rightarrow>
                      Inr \<lparr>ms_target = t, ms_optional = opt, ms_spec = s', ms_name = n,
                           ms_strictness = 2, ms_version = Some (Version_spec vspec),
                           ms_build = Some (Build_re (build_rx b)),
                           ms_match_fast = match_full\<rparr>)))"
  unfolding MatchSpec_compile_def Let_def assms
  by (auto split: sum.splits option.splits)

lemma fast_path_general:
  assumes "parse_oparts s (kw_target tk) (kw_optional ok) = Inr (h, t, opt)"
    and "MatchSpec_parts (strip h) = [n, v, b]"
  shows "((\<exists>m. MatchSpec_new re (From_str s) tk ok nrm = Inr m \<and> MatchSpec_is_exact m)
            \<longleftrightarrow> (\<exists>x. VersionSpec_new re v = Inr x \<and> VersionSpec_is_exact x)
                \<and> CHR ''*'' \<notin> set b)
       \<and> (\<forall>m d. MatchSpec_new re (From_str s) tk ok nrm = Inr m \<and> MatchSpec_is_exact m \<longrightarrow>
             ms_strictness m = 3 \<and>
             MatchSpec_match re m d
               = Inr (dist_name d = n \<and> dist_version d = v \<and> dist_build_string d = b))"
proof -
  note c = MatchSpec_compile_three [OF assms(2), of re t opt nrm]
  have new: "MatchSpec_new re (From_str s) tk ok nrm = MatchSpec_compile re t opt nrm h"
    by (simp add: MatchSpec_new_From_str assms(1))
  show ?thesis
  proof (cases "VersionSpec_new re v")
    case (Inl e)
    then show ?thesis by (simp add: new c)
  next
    case (Inr vspec)
    show ?thesis
    proof (cases "VersionSpec_is_exact vspec \<and> CHR ''*'' \<notin> set b")
      case True
      with Inr show ?thesis
        by (auto simp: new c MatchSpec_is_exact_def MatchSpec_match_def MatchSpec_match_fast_def)
    next
      case False
      with Inr show ?thesis
        by (auto simp: new c MatchSpec_is_exact_def split: sum.splits option.splits if_splits)
    qed
  qed
qed

text \<open>
  C10. For a spec of three tokens \<open>n\<close>, \<open>v\<close>, \<open>b\<close>, compiling succeeds on the fast path
  exactly when \<open>v\<close> compiles to an exact VersionSpec and \<open>b\<close> holds no \<^verbatim>\<open>*\<close>; the spec
  then has strictness 3 and matches a candidate exactly when its name, version string and
  build string equal \<open>n\<close>, \<open>v\<close> and \<open>b\<close> as strings. So \<^verbatim>\<open>numpy 1.7 py27_0\<close> rejects the
  version \<^verbatim>\<open>1.7.0\<close>, which equals \<^verbatim>\<open>1.7\<close> in the version order.
\<close>

theorem fast_path:
  "(parse_oparts s (kw_target tk) (kw_optional ok) = Inr (h, t, opt)
      \<and> MatchSpec_parts (strip h) = [n, v, b] \<longrightarrow>
      ((\<exists>m. MatchSpec_new re (From_str s) tk ok nrm = Inr m \<and> MatchSpec_is_exact m)
            \<longleftrightarrow> (\<exists>x. VersionSpec_new re v = Inr x \<and> VersionSpec_is_exact x)
                \<and> CHR ''*'' \<notin> set b)
       \<and> (\<forall>m d. MatchSpec_new re (From_str s) tk ok nrm = Inr m \<and> MatchSpec_is_exact m \<longrightarrow>
             ms_strictness m = 3 \<and>
             MatchSpec_match re m d
               = Inr (dist_name d = n \<and> dist_version d = v \<and> dist_build_string d = b)))
 \<and> compare_versions VersionOrder_eq ''1.7.0'' ''1.7'' = Inr True
 \<and> MatchSpec_matches re ''numpy 1.7 py27_0''
     \<lparr>dist_name = ''numpy'', dist_version = ''1.7.0'', dist_build_string = ''py27_0''\<rparr>
     = Inr False"
  (is "?G \<and> ?A \<and> ?B")
proof -
  have a: ?A by (simp add: VersionOrder_eval)
  have b: ?B by (simp add: MatchSpec_eval)
  have g: ?G using fast_path_general [of s tk ok h t opt n v b re nrm] by blast
  from g a b show ?thesis by (intro conjI)
qed

theorem fast_path_witness:
  "(\<exists>m. MatchSpec_new re_fragment (From_str '' scipy 0.19 np113py36_0 (optional)'')
           Ellipsis Ellipsis False = Inr m \<and> MatchSpec_is_exact m)
 \<and> MatchSpec_matches re_fragment '' scipy 0.19 np113py36_0 (optional)''
     \<lparr>dist_name = ''scipy'', dist_version = ''0.19.0'', dist_build_string = ''np113py36_0''\<rparr>
     = Inr False"
proof -
  let ?s = "'' scipy 0.19 np113py36_0 (optional)''"
  have p: "parse_oparts ?s (kw_target Ellipsis) (kw_optional Ellipsis)
             = Inr ('' scipy 0.19 np113py36_0 '', None, True)"
    by (simp add: MatchSpec_eval)
  have q: "MatchSpec_parts (strip '' scipy 0.19 np113py36_0 '') = [''scipy'', ''0.19'', ''np113py36_0'']"
    by (simp add: MatchSpec_eval)
  have x: "(\<exists>x. VersionSpec_new re_fragment ''0.19'' = Inr x \<and> VersionSpec_is_exact x)
           \<and> CHR ''*'' \<notin> set ''np113py36_0''"
    by (simp add: VersionSpec_eval)
  from fast_path [of ?s Ellipsis Ellipsis "'' scipy 0.19 np113py36_0 ''" None True
      "''scipy''" "''0.19''" "''np113py36_0''" re_fragment False] p q
  have iff: "(\<exists>m. MatchSpec_new re_fragment (From_str ?s) Ellipsis Ellipsis False = Inr m
                 \<and> MatchSpec_is_exact m)
            \<longleftrightarrow> (\<exists>x. VersionSpec_new re_fragment ''0.19'' = Inr x \<and> VersionSpec_is_exact x)
                \<and> CHR ''*'' \<notin> set ''np113py36_0''"
    and m: "\<And>m d. MatchSpec_new re_fragment (From_str ?s) Ellipsis Ellipsis False = Inr m
             \<Longrightarrow> MatchSpec_is_exact m \<Longrightarrow>
             MatchSpec_match re_fragment m d
               = Inr (dist_name d = ''scipy'' \<and> dist_version d = ''0.19''
                      \<and> dist_build_string d = ''np113py36_0'')"
    by blast+
  from iff x obtain m where new: "MatchSpec_new re_fragment (From_str ?s) Ellipsis Ellipsis False = Inr m"
    and ex: "MatchSpec_is_exact m" by blast
  from m [OF new ex] new ex show ?thesis
    by (auto simp: MatchSpec_matches_def)
qed

section \<open>Serialization of a VersionSpec\<close>

lemma join_split_on: "join [c] (split_on c s) = s"
proof (induction s)
  case Nil
  show ?case by simp
next
  case (Cons d s)
  have ne: "split_on c s \<noteq> []" by (rule split_on_not_Nil)
  then obtain p ps where sp: "split_on c s = p # ps" by (cases "split_on c s") auto
  with Cons show ?case by (auto simp: Let_def split: if_splits)
qed

lemma sequence_err_map:
  assumes "sequence_err (map f xs) = Inr cs"
    and "\<And>x v. x \<in> set xs \<Longrightarrow> f x = Inr v \<Longrightarrow> g v = x"
  shows "map g cs = xs"
  using assms
proof (induction xs arbitrary: cs)
  case Nil
  then show ?case by simp
next
  case (Cons x xs)
  from Cons.prems(1) obtain v vs where fx: "f x = Inr v"
    and rest: "sequence_err (map f xs) = Inr vs" and cs: "cs = v # vs"
    by (auto split: sum.splits)
  from Cons.prems(2) [of x v] fx have "g v = x" by simp
  moreover have "map g vs = xs" using rest Cons.prems(2) by (intro Cons.IH) auto
  ultimately show ?case by (simp add: cs)
qed

lemma VersionSpec_str_of_tuple:
  "t = Str_all \<or> t = Str_any \<Longrightarrow>
   VersionSpec_str (VersionSpec_of_tuple t children) inand =
     join (if t = Str_all then '','' else ''|'') (map (\<lambda>x. VersionSpec_str x False) children)"
  by (auto simp: VersionSpec_of_tuple_def tuple_str_def comp_def)

lemma regex_split_re_match_le: "regex_split_re_match s = Some n \<Longrightarrow> n \<le> length s"
proof -
  have l: "lazy_nonspace_dollar ds = Some k \<Longrightarrow> k \<le> length ds" for ds k
    by (induction ds arbitrary: k) (auto split: if_splits)
  assume "regex_split_re_match s = Some n"
  then show ?thesis
    by (auto simp: regex_split_re_match_def split: list.splits if_splits dest: l)
qed

lemma VersionSpec_str_new: "VersionSpec_new re s = Inr v \<Longrightarrow> VersionSpec_str v False = s"
proof (induction re s arbitrary: v rule: VersionSpec_new.induct)
  case (1 re s)
  note new = "1.prems" [unfolded VersionSpec_new.simps [of re s]]
  show ?case
  proof (cases "regex_split_re_match s")
    case (Some mend)
    show ?thesis
    proof (cases "mend < length s")
      case True
      from new Some True obtain t children where
        t: "regex_split_converter (s ! mend) = Some t"
        and ch: "sequence_err (map (VersionSpec_new re) [take mend s, drop (mend + 1) s]) = Inr children"
        and v: "v = VersionSpec_of_tuple t children"
        by (auto split: option.splits sum.splits)
      have "map (\<lambda>x. VersionSpec_str x False) children = [take mend s, drop (mend + 1) s]"
        using ch
      proof (rule sequence_err_map)
        fix x w
        assume "x \<in> set [take mend s, drop (mend + 1) s]" and "VersionSpec_new re x = Inr w"
        then show "VersionSpec_str w False = x" using "1.IH"(3) [OF Some True t] by blast
      qed
      moreover from t have "(t = Str_all \<and> s ! mend = CHR '','') \<or> (t = Str_any \<and> s ! mend = CHR ''|'')"
        by (auto simp: regex_split_converter_def split: if_splits)
      moreover have "take mend s @ [s ! mend] @ drop (mend + 1) s = s"
        using True by (simp add: id_take_nth_drop [symmetric])
      ultimately show ?thesis
        unfolding v by (auto simp: VersionSpec_str_of_tuple)
    next
      case False
      with regex_split_re_match_le [OF Some] have "take mend s = s" by simp
      with new Some False show ?thesis by (auto split: option.splits)
    qed
  next
    case None
    show ?thesis
    proof (cases "CHR ''|'' \<in> set s")
      case True
      from new None True obtain children where
        ch: "sequence_err (map (VersionSpec_new re) (split_on (CHR ''|'') s)) = Inr children"
        and v: "v = VersionSpec_of_tuple Str_any children"
        by (auto split: sum.splits)
      have "map (\<lambda>x. VersionSpec_str x False) children = split_on (CHR ''|'') s"
        using ch
      proof (rule sequence_err_map)
        fix x w
        assume "x \<in> set (split_on (CHR ''|'') s)" and "VersionSpec_new re x = Inr w"
        then show "VersionSpec_str w False = x" using "1.IH"(1) [OF None True] by blast
      qed
      then show ?thesis
        unfolding v using join_split_on [of "CHR ''|''" s] by (simp add: VersionSpec_str_of_tuple)
    next
      case False
      note nobar = False
      show ?thesis
      proof (cases "CHR '','' \<in> set s")
        case True
        from new None nobar True obtain children where
          ch: "sequence_err (map (VersionSpec_new re) (split_on (CHR '','') s)) = Inr children"
          and v: "v = VersionSpec_of_tuple Str_all children"
          by (auto split: sum.splits)
        have "map (\<lambda>x. VersionSpec_str x False) children = split_on (CHR '','') s"
          using ch
        proof (rule sequence_err_map)
          fix x w
          assume "x \<in> set (split_on (CHR '','') s)" and "VersionSpec_new re x = Inr w"
          then show "VersionSpec_str w False = x" using "1.IH"(2) [OF None nobar True] by blast
        qed
        then show ?thesis
          unfolding v using join_split_on [of "CHR '',''" s] by (simp add: VersionSpec_str_of_tuple)
      next
        case False
        with new None nobar show ?thesis
          by (auto split: option.splits sum.splits if_splits prod.splits)
      qed
    qed
  qed
qed

lemma VersionSpec_new_tags:
  assumes "VersionSpec_new re s = Inr v"
  shows "(\<forall>t cs. v = all_match t cs \<longrightarrow> t = Str_all)
       \<and> (\<forall>t cs. v = any_match t cs \<longrightarrow> t = Str_any)"
  using assms unfolding VersionSpec_new.simps [of re s]
  by (auto simp: VersionSpec_of_tuple_def regex_split_converter_def
           split: option.splits sum.splits if_splits prod.splits)

text \<open>
  C7, as amended. For a VersionSpec compiled from a string, the serialized form is the
  source string: the children of an \<^verbatim>\<open>all\<close> group joined with \<^verbatim>\<open>,\<close>, those of an \<^verbatim>\<open>any\<close>
  group joined with \<^verbatim>\<open>|\<close>, no parentheses added. Compiling it again gives a VersionSpec
  whose \<^verbatim>\<open>match\<close> agrees with the original on every version string.
\<close>

theorem VersionSpec_str_roundtrip:
  assumes "VersionSpec_new re s = Inr v"
  shows "VersionSpec_str v False = s
       \<and> (\<exists>v'. VersionSpec_new re (VersionSpec_str v False) = Inr v'
              \<and> (\<forall>x. VersionSpec_match re v' x = VersionSpec_match re v x))
       \<and> (\<forall>t cs. v = all_match t cs \<longrightarrow>
              s = join '','' (map (\<lambda>c. VersionSpec_str c False) cs))
       \<and> (\<forall>t cs. v = any_match t cs \<longrightarrow>
              s = join ''|'' (map (\<lambda>c. VersionSpec_str c False) cs))"
proof -
  have str: "VersionSpec_str v False = s" using assms by (rule VersionSpec_str_new)
  from VersionSpec_new_tags [OF assms]
  have a: "v = all_match t cs \<Longrightarrow> t = Str_all" and o: "v = any_match t cs \<Longrightarrow> t = Str_any"
    for t cs by blast+
  have "s = join '','' (map (\<lambda>c. VersionSpec_str c False) cs)" if "v = all_match t cs" for t cs
    using str a [OF that] that by (simp add: tuple_str_def comp_def)
  moreover
  have "s = join ''|'' (map (\<lambda>c. VersionSpec_str c False) cs)" if "v = any_match t cs" for t cs
    using str o [OF that] that by (simp add: tuple_str_def comp_def)
  moreover have "\<exists>v'. VersionSpec_new re (VersionSpec_str v False) = Inr v'
              \<and> (\<forall>x. VersionSpec_match re v' x = VersionSpec_match re v x)"
    using assms str by simp
  ultimately show ?thesis using str by blast
qed

theorem VersionSpec_str_roundtrip_witness:
  "map_sum id (\<lambda>v. VersionSpec_str v False) (VersionSpec_new re_fragment ''>=1.7,<2|^3.*$'')
     = Inr ''>=1.7,<2|^3.*$''"
proof -
  obtain v where new: "VersionSpec_new re_fragment ''>=1.7,<2|^3.*$'' = Inr v"
    by (simp add: VersionSpec_eval re_fragment_eval)
  from VersionSpec_str_roundtrip [OF new] have "VersionSpec_str v False = ''>=1.7,<2|^3.*$''"
    by blast
  with new show ?thesis by simp
qed

text \<open>
  C7. \<^verbatim>\<open>1.0,2.0|3.0\<close> compiles to an And group nested inside an Or group, and its
  serialization puts no parentheses around the And group.
\<close>

theorem and_in_or_not_parenthesized:
  "VersionSpec_new re_fragment ''1.0,2.0|3.0''
     = Inr (any_match Str_any
             [all_match Str_all [exact_match ''1.0'', exact_match ''2.0''], exact_match ''3.0''])
 \<and> VersionSpec_str
       (any_match Str_any
         [all_match Str_all [exact_match ''1.0'', exact_match ''2.0''], exact_match ''3.0''])
       False = ''1.0,2.0|3.0''"
  by (intro conjI) (simp_all add: VersionSpec_eval)

text \<open>
  The combinators built by \<^verbatim>\<open>&\<close> carry the builtin \<^verbatim>\<open>all\<close> as tag, which line 344 and line
  391 compare with the string \<^verbatim>\<open>'all'\<close>: the object matches like an Or group and is joined
  with \<^verbatim>\<open>|\<close>. The parentheses that \<^verbatim>\<open>str\<close> puts around an Or group inside such a group are
  not read back by the constructor.
\<close>

lemma and_operator_builds_any:
  "VersionSpec_and (exact_match ''1.0'') (exact_match ''2.0'')
     = any_match Fn_all [exact_match ''1.0'', exact_match ''2.0'']
 \<and> VersionSpec_str (VersionSpec_and (exact_match ''1.0'') (exact_match ''2.0'')) False = ''1.0|2.0''
 \<and> VersionSpec_match re (VersionSpec_and (exact_match ''1.0'') (exact_match ''2.0'')) ''1.0''
     = Inr True
 \<and> VersionSpec_str (VersionSpec_and (VersionSpec_or (exact_match ''1'') (exact_match ''2''))
       (exact_match ''3'')) False = ''(1|2)|3''
 \<and> VersionSpec_new re ''(1|2)|3''
     = Inr (any_match Str_any [exact_match ''(1'', exact_match ''2)'', exact_match ''3''])"
  by (intro conjI) (simp_all add: VersionSpec_eval)

end
